theory Spec2Isabelle
  imports Complex_Main "HOL-Library.Sublist"
begin

section \<open>Python values and exceptions\<close>

text \<open>
  The payloads of the broker API are JSON-like Python values. A Python \<open>bool\<close> is an
  \<open>int\<close> (\<open>True = 1\<close>, \<open>False = 0\<close>) and is represented by \<open>PInt\<close>; a \<open>float\<close> is
  represented by the rational it denotes (no NaN, no infinities, no rounding). A
  \<open>dict\<close> is an association list, looked up from the left.
\<close>

datatype pyval =
    PNone
  | PInt int
  | PFloat rat
  | PStr string
  | PDict "(string \<times> pyval) list"

text \<open>The exceptions the modelled code can raise.\<close>

datatype pyerr =
    KeyError string
  | ValueError
  | TypeError
  | AttributeError
  | IndexError
  | ZeroDivisionError
  | OSError

text \<open>\<open>isinstance(v, int)\<close> and \<open>isinstance(v, (int, float))\<close>.\<close>

fun is_int :: "pyval \<Rightarrow> bool" where
  "is_int (PInt _) = True"
| "is_int _ = False"

fun is_num :: "pyval \<Rightarrow> bool" where
  "is_num (PInt _) = True"
| "is_num (PFloat _) = True"
| "is_num _ = False"

text \<open>The number a numeric value denotes (0 for the others, which no caller asks for).\<close>

fun num_of :: "pyval \<Rightarrow> rat" where
  "num_of (PInt i) = of_int i"
| "num_of (PFloat r) = r"
| "num_of _ = 0"

text \<open>Truth value of a Python object, as \<open>or\<close>, \<open>not\<close> and \<open>if\<close> test it.\<close>

fun truthy :: "pyval \<Rightarrow> bool" where
  "truthy PNone = False"
| "truthy (PInt i) = (i \<noteq> 0)"
| "truthy (PFloat r) = (r \<noteq> 0)"
| "truthy (PStr s) = (s \<noteq> [])"
| "truthy (PDict d) = (d \<noteq> [])"

text \<open>
  \<open>d.get(k)\<close> and \<open>d.get(k, default)\<close> on a dict. Calling \<open>.get\<close> on a value that is not
  a dict raises \<open>AttributeError\<close>.
\<close>

definition dget :: "(string \<times> pyval) list \<Rightarrow> string \<Rightarrow> pyval" where
  "dget d k = (case map_of d k of None \<Rightarrow> PNone | Some v \<Rightarrow> v)"

definition dget_default :: "(string \<times> pyval) list \<Rightarrow> string \<Rightarrow> pyval \<Rightarrow> pyval" where
  "dget_default d k dflt = (case map_of d k of None \<Rightarrow> dflt | Some v \<Rightarrow> v)"

fun as_dict :: "pyval \<Rightarrow> pyerr + (string \<times> pyval) list" where
  "as_dict (PDict d) = Inr d"
| "as_dict _ = Inl AttributeError"

text \<open>Sequencing of computations that may raise.\<close>

definition bind_err :: "pyerr + 'a \<Rightarrow> ('a \<Rightarrow> pyerr + 'b) \<Rightarrow> pyerr + 'b" where
  "bind_err m f = (case m of Inl e \<Rightarrow> Inl e | Inr x \<Rightarrow> f x)"

text \<open>
  Arithmetic on numbers: \<open>int\<close> with \<open>int\<close> stays \<open>int\<close> for \<open>+\<close>, \<open>-\<close> and \<open>*\<close>; anything
  with a \<open>float\<close> is a \<open>float\<close>; \<open>/\<close> is always a \<open>float\<close> and raises
  \<open>ZeroDivisionError\<close> on a zero divisor; a non-numeric operand raises \<open>TypeError\<close>.
\<close>

fun py_add :: "pyval \<Rightarrow> pyval \<Rightarrow> pyerr + pyval" where
  "py_add (PInt a) (PInt b) = Inr (PInt (a + b))"
| "py_add a b = (if is_num a \<and> is_num b then Inr (PFloat (num_of a + num_of b)) else Inl TypeError)"

fun py_sub :: "pyval \<Rightarrow> pyval \<Rightarrow> pyerr + pyval" where
  "py_sub (PInt a) (PInt b) = Inr (PInt (a - b))"
| "py_sub a b = (if is_num a \<and> is_num b then Inr (PFloat (num_of a - num_of b)) else Inl TypeError)"

fun py_mul :: "pyval \<Rightarrow> pyval \<Rightarrow> pyerr + pyval" where
  "py_mul (PInt a) (PInt b) = Inr (PInt (a * b))"
| "py_mul a b = (if is_num a \<and> is_num b then Inr (PFloat (num_of a * num_of b)) else Inl TypeError)"

definition py_truediv :: "pyval \<Rightarrow> pyval \<Rightarrow> pyerr + pyval" where
  "py_truediv a b =
     (if \<not> (is_num a \<and> is_num b) then Inl TypeError
      else if num_of b = 0 then Inl ZeroDivisionError
      else Inr (PFloat (num_of a / num_of b)))"

text \<open>\<open>x != 0\<close>: a number differs from 0 by value, any other object differs from 0.\<close>

definition ne_zero :: "pyval \<Rightarrow> bool" where
  "ne_zero v = (if is_num v then num_of v \<noteq> 0 else True)"

text \<open>
  The built-in \<open>round(x)\<close> of one argument: the nearest integer, a tie going to the
  even one.
\<close>

definition py_round :: "rat \<Rightarrow> int" where
  "py_round x =
     (let f = \<lfloor>x\<rfloor>; d = x - of_int f in
      if d < 1 / 2 then f
      else if 1 / 2 < d then f + 1
      else if even f then f else f + 1)"

text \<open>Python's \<open>sub in s\<close> on strings.\<close>

fun str_in :: "string \<Rightarrow> string \<Rightarrow> bool" where
  "str_in sub [] = (sub = [])"
| "str_in sub (c # cs) = (prefix sub (c # cs) \<or> str_in sub cs)"

section \<open>safe\_call (app/brokers/kite\_helpers.py)\<close>

text \<open>
  What the code reads of a \<open>Retry-After\<close> header: the entry is missing, or \<open>int()\<close>
  raises on it, or \<open>int()\<close> returns the integer.
\<close>

datatype retry_header = Missing | NotAnInt | IntValue int

text \<open>
  A \<open>KiteException\<close> as the handler inspects it: \<open>str(type(ex))\<close>, \<open>str(ex)\<close>,
  \<open>getattr(ex, "code", None)\<close>, and the \<open>Retry-After\<close> entry of
  \<open>ex.response.headers\<close> (\<open>None\<close> when \<open>ex\<close> has no \<open>response\<close> or the response has
  no \<open>headers\<close>).
\<close>

record kite_exception =
  type_str :: string
  message :: string
  code :: "int option"
  response_headers :: "retry_header option"

text \<open>
  One invocation of the broker method either returns a payload or raises: a
  \<open>KiteException\<close>, a \<open>requests.exceptions.HTTPError\<close> (whose \<open>response\<close> is \<open>None\<close> or
  has a status code and a \<open>Retry-After\<close> entry), or any other \<open>Exception\<close> (which
  includes the \<open>AttributeError\<close> of \<open>getattr\<close> on an unknown method name).
\<close>

datatype outcome =
    Returns pyval
  | RaisesKite kite_exception
  | RaisesHTTP "(int \<times> retry_header) option"
  | RaisesOther

text \<open>
  The broker client: \<open>kite_api n method args\<close> is the outcome of the \<open>n\<close>-th
  invocation (counted from 0 over the life of the process) of a broker method.
  \<open>ensure_token_fn\<close> needs no model of its own: line 39 catches whatever it raises, so
  the loop goes on in the same way whether the refresh succeeded or not; its calls are
  counted.
\<close>

record broker =
  kite_api :: "nat \<Rightarrow> string \<Rightarrow> string list \<Rightarrow> outcome"

text \<open>
  The effects of \<open>safe_call\<close>: how many broker invocations and token refreshes have
  happened, and the delays slept so far. The \<open>print\<close> calls are not modelled.
\<close>

record effects =
  calls :: nat
  refreshes :: nat
  sleeps :: "rat list"

definition max_retries :: nat where
  "max_retries = 3"

definition base_delay :: rat where
  "base_delay = 2 / 10"

text \<open>\<open>time.sleep(d)\<close> raises \<open>ValueError\<close> on a negative length.\<close>

definition time_sleep :: "rat \<Rightarrow> effects \<Rightarrow> pyerr + effects" where
  "time_sleep d w = (if d < 0 then Inl ValueError else Inr (w\<lparr>sleeps := sleeps w @ [d]\<rparr>))"

text \<open>
  Lines 49-55: \<open>retry_after\<close> stays \<open>None\<close> unless the exception has response headers
  and \<open>int(headers.get("Retry-After", 0))\<close> succeeds.
\<close>

fun kite_retry_after :: "retry_header option \<Rightarrow> int option" where
  "kite_retry_after None = None"
| "kite_retry_after (Some Missing) = Some 0"
| "kite_retry_after (Some NotAnInt) = None"
| "kite_retry_after (Some (IntValue n)) = Some n"

text \<open>Lines 58-61.\<close>

definition kite_delay :: "int option \<Rightarrow> nat \<Rightarrow> rat" where
  "kite_delay retry_after attempt =
     (case retry_after of
        Some n \<Rightarrow> if n \<noteq> 0 \<and> n > 0 then min (of_int n) 2
                  else min (base_delay * 2 ^ attempt) 2
      | None \<Rightarrow> min (base_delay * 2 ^ attempt) 2)"

text \<open>Lines 78-82: \<open>int(None)\<close> raises, so a missing header gives \<open>None\<close>.\<close>

fun http_retry_after :: "retry_header \<Rightarrow> int option" where
  "http_retry_after Missing = None"
| "http_retry_after NotAnInt = None"
| "http_retry_after (IntValue n) = Some n"

text \<open>Line 83: \<open>min(retry_after or base_delay * (2 ** attempt), 2.0)\<close>.\<close>

definition http_delay :: "int option \<Rightarrow> nat \<Rightarrow> rat" where
  "http_delay retry_after attempt =
     (case retry_after of
        Some n \<Rightarrow> if n \<noteq> 0 then min (of_int n) 2 else min (base_delay * 2 ^ attempt) 2
      | None \<Rightarrow> min (base_delay * 2 ^ attempt) 2)"

text \<open>
  The \<open>while True\<close> loop, one iteration per invocation of the broker method. The result
  is the returned value (\<open>Inr\<close>; the empty result is \<open>{}\<close>) or the exception that leaves
  \<open>safe_call\<close> (\<open>Inl\<close>), with the effects so far. An exception raised inside an
  \<open>except\<close> block is not caught by the later \<open>except\<close> clauses of the same \<open>try\<close>.
\<close>

function safe_call_loop ::
  "broker \<Rightarrow> string \<Rightarrow> string list \<Rightarrow> nat \<Rightarrow> effects \<Rightarrow> (pyerr + pyval) \<times> effects" where
  "safe_call_loop B method_name args attempt w =
     (let w1 = w\<lparr>calls := Suc (calls w)\<rparr> in
      case kite_api B (calls w) method_name args of
        Returns v \<Rightarrow> (Inr v, w1)
      | RaisesKite ex \<Rightarrow>
          if str_in ''TokenException'' (type_str ex) \<or> str_in ''TokenException'' (message ex)
          then
            (let w2 = w1\<lparr>refreshes := Suc (refreshes w1)\<rparr> in
             if attempt + 1 > max_retries then (Inr (PDict []), w2)
             else safe_call_loop B method_name args (attempt + 1) w2)
          else if str_in ''Too many requests'' (message ex) \<or> code ex = Some 429
          then
            (case time_sleep (kite_delay (kite_retry_after (response_headers ex)) attempt) w1 of
               Inl e \<Rightarrow> (Inl e, w1)
             | Inr w2 \<Rightarrow>
                 if attempt + 1 > max_retries then (Inr (PDict []), w2)
                 else safe_call_loop B method_name args (attempt + 1) w2)
          else (Inr (PDict []), w1)
      | RaisesHTTP resp \<Rightarrow>
          (case resp of
             None \<Rightarrow> (Inr (PDict []), w1)
           | Some (status_code, hdr) \<Rightarrow>
               if status_code = 429
               then
                 (case time_sleep (http_delay (http_retry_after hdr) attempt) w1 of
                    Inl e \<Rightarrow> (Inl e, w1)
                  | Inr w2 \<Rightarrow>
                      if attempt + 1 > max_retries then (Inr (PDict []), w2)
                      else safe_call_loop B method_name args (attempt + 1) w2)
               else (Inr (PDict []), w1))
      | RaisesOther \<Rightarrow> (Inr (PDict []), w1))"
  by pat_completeness auto
termination
  by (relation "measure (\<lambda>(B, m, a, attempt, w). max_retries + 1 - attempt)") auto

declare safe_call_loop.simps [simp del]

definition safe_call ::
  "broker \<Rightarrow> string \<Rightarrow> string list \<Rightarrow> effects \<Rightarrow> (pyerr + pyval) \<times> effects" where
  "safe_call B method_name args w = safe_call_loop B method_name args 0 w"

section \<open>Dates and the month calendar (datetime, calendar)\<close>

text \<open>
  A \<open>datetime.date\<close>. The standard library counts days in the proleptic Gregorian
  calendar: \<open>ymd2ord\<close> is \<open>date.toordinal()\<close> and \<open>weekday\<close> is \<open>date.weekday()\<close>, with
  Monday as 0 and Thursday as 3.
\<close>

record date =
  year :: int
  month :: int
  day :: int

definition isleap :: "int \<Rightarrow> bool" where
  "isleap y = (y mod 4 = 0 \<and> (y mod 100 \<noteq> 0 \<or> y mod 400 = 0))"

definition mdays :: "int list" where
  "mdays = [0, 31, 28, 31, 30, 31, 30, 31, 31, 30, 31, 30, 31]"

definition days_in_month :: "int \<Rightarrow> int \<Rightarrow> int" where
  "days_in_month y m = mdays ! nat m + (if m = 2 \<and> isleap y then 1 else 0)"

definition days_before_year :: "int \<Rightarrow> int" where
  "days_before_year y = (y - 1) * 365 + (y - 1) div 4 - (y - 1) div 100 + (y - 1) div 400"

definition days_before_month :: "int \<Rightarrow> int \<Rightarrow> int" where
  "days_before_month y m = (\<Sum>k \<leftarrow> [1..<nat m]. days_in_month y (int k))"

definition ymd2ord :: "int \<Rightarrow> int \<Rightarrow> int \<Rightarrow> int" where
  "ymd2ord y m d = days_before_year y + days_before_month y m + d"

definition toordinal :: "date \<Rightarrow> int" where
  "toordinal d = ymd2ord (year d) (month d) (day d)"









section \<open>The ATM option collector (app/collectors/atm\_option\_collector.py)\<close>

datatype index = NIFTY | SENSEX | BANKNIFTY

fun index_name :: "index \<Rightarrow> string" where
  "index_name NIFTY = ''NIFTY''"
| "index_name SENSEX = ''SENSEX''"
| "index_name BANKNIFTY = ''BANKNIFTY''"

fun SPOT_SYMBOL :: "index \<Rightarrow> string" where
  "SPOT_SYMBOL NIFTY = ''NSE:NIFTY 50''"
| "SPOT_SYMBOL SENSEX = ''BSE:SENSEX''"
| "SPOT_SYMBOL BANKNIFTY = ''NSE:NIFTY BANK''"

fun STEP :: "index \<Rightarrow> int" where
  "STEP NIFTY = 50"
| "STEP SENSEX = 100"
| "STEP BANKNIFTY = 100"


text \<open>
  Line 84 on the value \<open>_spot_price\<close> returned: \<open>/\<close> raises \<open>TypeError\<close> on a spot price
  that is not a number.
\<close>

definition atm_strike :: "pyval \<Rightarrow> int \<Rightarrow> pyerr + int" where
  "atm_strike spot step =
     bind_err (py_truediv spot (PInt step)) (\<lambda>q. Inr (py_round (num_of q) * step))"

text \<open>
  An entry of the instrument dumps loaded by \<open>__init__\<close>, as \<open>_get_tokens\<close> reads it:
  \<open>str(i.get("segment", ""))\<close>, \<open>i.get("strike")\<close>, \<open>str(i.get("tradingsymbol", ""))\<close>,
  the value \<open>_get_tokens\<close> stores under \<open>"_exp"\<close> (\<open>parse_expiry\<close> of the entry, or \<open>None\<close>
  when it raised), \<open>i.get("instrument_type")\<close> and \<open>str(i["instrument_token"])\<close>.
\<close>

record instrument =
  segment :: string
  strike :: pyval
  tradingsymbol :: string
  parsed_expiry :: "date option"
  instrument_type :: string
  instrument_token :: string

text \<open>
  The collector object and its surroundings, as far as one cycle reads them. The
  module \<open>app.brokers.expiry_discovery\<close> and \<open>rounded_half_minute\<close> are not part of the
  sources: the discovery functions are parameters, and \<open>rounded_now\<close> is the string
  \<open>rounded_half_minute(get_now())\<close> returns. \<open>today\<close> is \<open>date.today()\<close>, \<open>snapshot_time\<close>
  the formatted \<open>get_now()\<close> of line 76. \<open>file_write_raises n\<close> says whether the \<open>n\<close>-th
  snapshot write (lines 179-183: \<open>mkdir\<close>, \<open>open\<close>, \<open>json.dump\<close>) raises \<open>OSError\<close>, and
  \<open>influx_raises n\<close> whether anything inside the \<open>try\<close> of the \<open>n\<close>-th \<open>write_atm_leg\<close>
  raises.
\<close>

record collector =
  kite :: broker
  insts_nfo :: "instrument list"
  insts_bfo :: "instrument list"
  raw_dir :: string
  use_dynamic_expiries :: bool
  influx_writer :: bool
  discover_weeklies_for_index ::
    "instrument list \<Rightarrow> instrument list \<Rightarrow> index \<Rightarrow> int \<Rightarrow> date list"
  discover_monthlies_for_index ::
    "instrument list \<Rightarrow> instrument list \<Rightarrow> index \<Rightarrow> int \<Rightarrow> date option \<times> date option"
  today :: date
  snapshot_time :: string
  rounded_now :: string
  file_write_raises :: "nat \<Rightarrow> bool"
  influx_raises :: "nat \<Rightarrow> bool"

text \<open>The leg record of lines 141-176 and the overview entry of lines 124-134.\<close>

record leg =
  timestamp :: string
  index :: string
  bucket :: string
  side :: string
  expiry :: string
  atm_strike_field :: int
  last_price :: pyval
  days_to_expiry :: int
  average_price :: pyval
  volume :: pyval
  oi :: pyval
  oi_open :: pyval
  oi_change :: pyval
  ohlc_open :: pyval
  ohlc_high :: pyval
  ohlc_low :: pyval
  ohlc_close :: pyval
  net_change :: pyval
  net_change_percent :: pyval
  day_change :: pyval
  day_change_percent :: pyval
  iv :: pyval

record overview =
  TP :: pyval
  OI_CALL :: pyval
  OI_PUT :: pyval
  PCR :: pyval
  atm_iv :: pyval
  iv_open :: pyval
  iv_day_change :: pyval
  overview_days_to_expiry :: int

text \<open>A point handed to the InfluxDB client: measurement, tags, fields, time.\<close>

record point =
  measurement :: string
  point_tags :: "(string \<times> string) list"
  point_fields :: "(string \<times> pyval) list"
  point_time :: string

text \<open>
  Everything a cycle changes: the effects on the broker, the two baseline maps of the
  collector object, the snapshot files and points written (with the number of
  attempts), and the two results under construction.
\<close>

record state =
  fx :: effects
  oi_open_map :: "string \<rightharpoonup> pyval"
  iv_open_map :: "string \<rightharpoonup> pyval"
  files :: "(string \<times> leg) list"
  file_writes :: nat
  points :: "point list"
  influx_writes :: nat
  legs :: "leg list"
  overview_aggs :: "string \<rightharpoonup> (string \<rightharpoonup> overview)"

text \<open>
  A statement is a function from the state to the exception it raised, if any, and
  the state it leaves. \<open>then_do\<close> runs two statements in sequence and \<open>for_each\<close> is a
  \<open>for\<close> loop: both stop at the first exception.
\<close>

definition then_do ::
  "(state \<Rightarrow> pyerr option \<times> state) \<Rightarrow> (state \<Rightarrow> pyerr option \<times> state)
    \<Rightarrow> state \<Rightarrow> pyerr option \<times> state" where
  "then_do f g S = (case f S of (None, S1) \<Rightarrow> g S1 | (Some e, S1) \<Rightarrow> (Some e, S1))"

fun for_each ::
  "('a \<Rightarrow> state \<Rightarrow> pyerr option \<times> state) \<Rightarrow> 'a list \<Rightarrow> state \<Rightarrow> pyerr option \<times> state" where
  "for_each body [] S = (None, S)"
| "for_each body (x # xs) S =
     (case body x S of (None, S1) \<Rightarrow> for_each body xs S1 | (Some e, S1) \<Rightarrow> (Some e, S1))"

text \<open>\<open>q.get(k)\<close> and \<open>q.get(k, default)\<close> on a value that should be a dict.\<close>

definition qget :: "pyval \<Rightarrow> string \<Rightarrow> pyerr + pyval" where
  "qget q k = bind_err (as_dict q) (\<lambda>d. Inr (dget d k))"

definition qget_default :: "pyval \<Rightarrow> string \<Rightarrow> pyval \<Rightarrow> pyerr + pyval" where
  "qget_default q k dflt = bind_err (as_dict q) (\<lambda>d. Inr (dget_default d k dflt))"

text \<open>Lines 46-48: \<open>_spot_price\<close>.\<close>

definition spot_price :: "collector \<Rightarrow> index \<Rightarrow> effects \<Rightarrow> (pyerr + pyval) \<times> effects" where
  "spot_price C idx w =
     (case safe_call (kite C) ''quote'' [SPOT_SYMBOL idx] w of
        (r, w1) \<Rightarrow>
          (bind_err r (\<lambda>v.
             bind_err (qget_default (if truthy v then v else PDict []) (SPOT_SYMBOL idx) (PDict []))
               (\<lambda>entry. qget entry ''last_price'')),
           w1))"

text \<open>Lines 50-51: \<open>_pool_for_idx\<close>.\<close>

definition pool_for_idx :: "collector \<Rightarrow> index \<Rightarrow> instrument list" where
  "pool_for_idx C idx = (if idx = SENSEX then insts_bfo C else insts_nfo C)"

text \<open>
  Lines 53-57: \<open>_discover_expiries_for_idx\<close>; the dict it returns is an association
  list.
\<close>

definition discover_expiries_for_idx ::
  "collector \<Rightarrow> index \<Rightarrow> int \<Rightarrow> (string \<times> date list) list" where
  "discover_expiries_for_idx C idx atm =
     (let weeklies = discover_weeklies_for_index C (insts_nfo C) (insts_bfo C) idx atm;
          (m_this, m_next) = discover_monthlies_for_index C (insts_nfo C) (insts_bfo C) idx atm;
          monthly = List.map_filter (\<lambda>d. d) [m_this, m_next]
      in [(''weekly'', weeklies), (''monthly'', monthly)])"

text \<open>
  Lines 59-73: \<open>_get_tokens\<close>. \<open>i.get("strike") == atm\<close> compares a number with the
  integer strike by value; anything that is not a number differs from it. \<open>target\<close> is
  the parameter \<open>exp\<close> of the source.
\<close>

definition get_tokens ::
  "instrument list \<Rightarrow> index \<Rightarrow> int \<Rightarrow> date \<Rightarrow> string option \<times> string option" where
  "get_tokens pool idx atm target =
     (let opts = filter (\<lambda>i. suffix ''-OPT'' (segment i)
                            \<and> (is_num (strike i) \<and> num_of (strike i) = of_int atm)
                            \<and> str_in (index_name idx) (tradingsymbol i)) pool;
          ce = find (\<lambda>i. parsed_expiry i = Some target \<and> instrument_type i = ''CE'') opts;
          pe = find (\<lambda>i. parsed_expiry i = Some target \<and> instrument_type i = ''PE'') opts
      in case (ce, pe) of
           (Some c, Some p) \<Rightarrow> (Some (instrument_token c), Some (instrument_token p))
         | _ \<Rightarrow> (None, None))"

text \<open>
  Lines 88-95: the buckets of an index. \<open>exps["monthly"]\<close> raises \<open>KeyError\<close> when the
  key is missing, \<open>exps.get(...)\<close> does not.
\<close>

definition nth_or_none :: "'a list \<Rightarrow> nat \<Rightarrow> 'a option" where
  "nth_or_none xs i = (if i < length xs then Some (xs ! i) else None)"

definition get_or_empty :: "(string \<times> date list) list \<Rightarrow> string \<Rightarrow> date list" where
  "get_or_empty exps k = (case map_of exps k of None \<Rightarrow> [] | Some ds \<Rightarrow> ds)"

definition bucket_pairs ::
  "index \<Rightarrow> (string \<times> date list) list \<Rightarrow> pyerr + (string \<times> date option) list" where
  "bucket_pairs idx exps =
     (if idx = BANKNIFTY then
        (case map_of exps ''monthly'' of
           None \<Rightarrow> Inl (KeyError ''monthly'')
         | Some monthly \<Rightarrow>
             Inr [(''this_month'', nth_or_none monthly 0),
                  (''next_month'', nth_or_none monthly 1)])
      else
        Inr [(''this_week'', nth_or_none (get_or_empty exps ''weekly'') 0),
             (''next_week'', nth_or_none (get_or_empty exps ''weekly'') 1),
             (''this_month'', nth_or_none (get_or_empty exps ''monthly'') 0),
             (''next_month'', nth_or_none (get_or_empty exps ''monthly'') 1)])"

text \<open>\<open>date.isoformat()\<close> and \<open>str\<close> of an integer, for file names and tags.\<close>

definition digit :: "nat \<Rightarrow> char" where
  "digit n = ''0123456789'' ! (n mod 10)"

definition isoformat :: "date \<Rightarrow> string" where
  "isoformat d =
     (let y = nat (year d); m = nat (month d); dd = nat (day d) in
      [digit (y div 1000), digit (y div 100), digit (y div 10), digit y] @ ''-''
      @ [digit (m div 10), digit m] @ ''-'' @ [digit (dd div 10), digit dd])"

function str_of_nat :: "nat \<Rightarrow> string" where
  "str_of_nat n = (if n < 10 then [digit n] else str_of_nat (n div 10) @ [digit n])"
  by pat_completeness auto
termination
  by (relation "measure (\<lambda>n. n)") auto

declare str_of_nat.simps [simp del]

definition str_of_int :: "int \<Rightarrow> string" where
  "str_of_int i = (if i < 0 then ''-'' @ str_of_nat (nat (- i)) else str_of_nat (nat i))"

text \<open>
  Lines 109-113, the body of the seeding loop for one \<open>(tkn, q)\<close>: a baseline is
  written only when the key is not in the map yet; \<open>and\<close> does not evaluate
  \<open>q.get(...)\<close> when the key is there.
\<close>

definition seed_oi :: "string \<Rightarrow> pyval \<Rightarrow> state \<Rightarrow> pyerr option \<times> state" where
  "seed_oi tkn q S =
     (if oi_open_map S tkn \<noteq> None then (None, S)
      else case qget q ''oi'' of
             Inl e \<Rightarrow> (Some e, S)
           | Inr v \<Rightarrow> if is_int v then (None, S\<lparr>oi_open_map := (oi_open_map S)(tkn \<mapsto> v)\<rparr>)
                      else (None, S))"

definition seed_iv :: "string \<Rightarrow> pyval \<Rightarrow> state \<Rightarrow> pyerr option \<times> state" where
  "seed_iv tkn q S =
     (if iv_open_map S tkn \<noteq> None then (None, S)
      else case qget q ''iv'' of
             Inl e \<Rightarrow> (Some e, S)
           | Inr v \<Rightarrow> if is_num v then (None, S\<lparr>iv_open_map := (iv_open_map S)(tkn \<mapsto> v)\<rparr>)
                      else (None, S))"

definition seed_maps :: "string \<times> pyval \<Rightarrow> state \<Rightarrow> pyerr option \<times> state" where
  "seed_maps p S = (case p of (tkn, q) \<Rightarrow> then_do (seed_oi tkn q) (seed_iv tkn q) S)"

text \<open>Lines 115-117: the averaged implied volatility of the two legs.\<close>

definition iv_average :: "pyval \<Rightarrow> pyval \<Rightarrow> pyerr + pyval" where
  "iv_average ce_q pe_q =
     bind_err (qget ce_q ''iv'') (\<lambda>ce_iv.
       if \<not> is_num ce_iv then Inr PNone
       else bind_err (qget pe_q ''iv'') (\<lambda>pe_iv.
         if \<not> is_num pe_iv then Inr PNone
         else bind_err (py_add ce_iv pe_iv) (\<lambda>s. py_truediv s (PInt 2))))"

text \<open>Lines 119-120: the aggregate baseline, written once.\<close>

definition seed_iv_key :: "string \<Rightarrow> pyval \<Rightarrow> state \<Rightarrow> state" where
  "seed_iv_key iv_key iv_avg S =
     (if iv_avg \<noteq> PNone \<and> iv_open_map S iv_key = None
      then S\<lparr>iv_open_map := (iv_open_map S)(iv_key \<mapsto> iv_avg)\<rparr> else S)"

text \<open>\<open>m.get(k)\<close> on a baseline map.\<close>

definition map_get :: "(string \<rightharpoonup> pyval) \<Rightarrow> string \<Rightarrow> pyval" where
  "map_get m k = (case m k of None \<Rightarrow> PNone | Some v \<Rightarrow> v)"

text \<open>Line 122 and line 139: the two drift fields.\<close>

definition iv_day_change_of :: "pyval \<Rightarrow> pyval \<Rightarrow> pyerr + pyval" where
  "iv_day_change_of iv_open_val iv_avg =
     (if is_num iv_open_val \<and> is_num iv_avg then py_sub iv_open_val iv_avg else Inr PNone)"

definition oi_change_of :: "pyval \<Rightarrow> pyval \<Rightarrow> pyerr + pyval" where
  "oi_change_of oi_open_val oi_curr =
     (if is_int oi_open_val \<and> is_int oi_curr then py_sub oi_open_val oi_curr else Inr PNone)"

text \<open>The built-in \<open>sum\<close>, which starts from the integer 0.\<close>

definition py_sum :: "pyval list \<Rightarrow> pyerr + pyval" where
  "py_sum xs = foldl (\<lambda>acc x. bind_err acc (\<lambda>a. py_add a x)) (Inr (PInt 0)) xs"

text \<open>Line 125 and lines 128-129: total premium and put/call ratio.\<close>

definition total_premium :: "pyval \<Rightarrow> pyval \<Rightarrow> pyerr + pyval" where
  "total_premium ce_q pe_q =
     bind_err (qget ce_q ''last_price'') (\<lambda>ce_last.
     bind_err (qget pe_q ''last_price'') (\<lambda>pe_last.
       py_sum (filter is_num [ce_last, pe_last])))"

definition put_call_ratio :: "pyval \<Rightarrow> pyval \<Rightarrow> pyerr + pyval" where
  "put_call_ratio ce_q pe_q =
     bind_err (qget pe_q ''oi'') (\<lambda>pe_oi.
       if \<not> is_int pe_oi then Inr PNone
       else bind_err (qget ce_q ''oi'') (\<lambda>ce_oi.
         if is_int ce_oi \<and> ne_zero ce_oi then py_truediv pe_oi ce_oi else Inr PNone))"

text \<open>Lines 124-134: the overview entry of a bucket. \<open>target\<close> is the expiry \<open>exp\<close>.\<close>

definition make_overview ::
  "date \<Rightarrow> date \<Rightarrow> pyval \<Rightarrow> pyval \<Rightarrow> pyval \<Rightarrow> pyval \<Rightarrow> pyval \<Rightarrow> pyerr + overview" where
  "make_overview tday target ce_q pe_q iv_avg iv_open_val iv_chg =
     bind_err (total_premium ce_q pe_q) (\<lambda>tp.
     bind_err (qget ce_q ''oi'') (\<lambda>oi_call.
     bind_err (qget pe_q ''oi'') (\<lambda>oi_put.
     bind_err (put_call_ratio ce_q pe_q) (\<lambda>pcr.
       Inr \<lparr>TP = tp, OI_CALL = oi_call, OI_PUT = oi_put, PCR = pcr, atm_iv = iv_avg,
            iv_open = iv_open_val, iv_day_change = iv_chg,
            overview_days_to_expiry = toordinal target - toordinal tday\<rparr>))))"

text \<open>
  Lines 115-134 as a statement: the aggregate baseline is seeded before the drift is
  computed, and the entry is stored under \<open>overview_aggs[idx][label]\<close>.
\<close>

definition bucket_overview ::
  "collector \<Rightarrow> index \<Rightarrow> string \<Rightarrow> date \<Rightarrow> pyval \<Rightarrow> pyval \<Rightarrow> state \<Rightarrow> pyerr option \<times> state" where
  "bucket_overview C idx label target ce_q pe_q S =
     (case iv_average ce_q pe_q of
        Inl e \<Rightarrow> (Some e, S)
      | Inr iv_avg \<Rightarrow>
          (let iv_key = index_name idx @ ''_'' @ label @ ''_iv_open'';
               S1 = seed_iv_key iv_key iv_avg S;
               iv_open_val = map_get (iv_open_map S1) iv_key
           in case bind_err (iv_day_change_of iv_open_val iv_avg) (\<lambda>iv_chg.
                     make_overview (today C) target ce_q pe_q iv_avg iv_open_val iv_chg) of
                Inl e \<Rightarrow> (Some e, S1)
              | Inr ov \<Rightarrow>
                  (case overview_aggs S1 (index_name idx) of
                     None \<Rightarrow> (Some (KeyError (index_name idx)), S1)
                   | Some entries \<Rightarrow>
                       (None, S1\<lparr>overview_aggs :=
                                   (overview_aggs S1)(index_name idx \<mapsto> entries(label \<mapsto> ov))\<rparr>))))"

text \<open>
  Lines 159-161 and 167-169 (a change), lines 162-166 and 170-174 (its percentage):
  \<open>lastp\<close> is the last price and \<open>base\<close> the OHLC close or open.
\<close>

definition change_of :: "pyval \<Rightarrow> pyval \<Rightarrow> pyerr + pyval" where
  "change_of lastp base =
     (if is_num lastp \<and> is_num base then py_sub lastp base else Inr PNone)"

definition change_percent_of :: "pyval \<Rightarrow> pyval \<Rightarrow> pyerr + pyval" where
  "change_percent_of lastp base =
     (if is_num lastp \<and> is_num base \<and> ne_zero base
      then bind_err (py_sub lastp base) (\<lambda>d.
           bind_err (py_truediv d base) (\<lambda>r. py_mul r (PInt 100)))
      else Inr PNone)"

text \<open>Lines 137-176: the record of one leg.\<close>

definition make_leg ::
  "collector \<Rightarrow> index \<Rightarrow> string \<Rightarrow> date \<Rightarrow> int \<Rightarrow> string \<Rightarrow> pyval \<Rightarrow> pyval \<Rightarrow> pyerr + leg" where
  "make_leg C idx label target atm side_name oi_open_val q =
     bind_err (qget q ''oi'') (\<lambda>oi_curr.
     bind_err (oi_change_of oi_open_val oi_curr) (\<lambda>oi_chg.
     bind_err (qget q ''last_price'') (\<lambda>lastp.
     bind_err (qget q ''average_price'') (\<lambda>avg.
     bind_err (qget q ''volume'') (\<lambda>vol.
     bind_err (qget_default q ''ohlc'' (PDict [])) (\<lambda>ohlc.
     bind_err (qget ohlc ''open'') (\<lambda>o_open.
     bind_err (qget ohlc ''high'') (\<lambda>o_high.
     bind_err (qget ohlc ''low'') (\<lambda>o_low.
     bind_err (qget ohlc ''close'') (\<lambda>o_close.
     bind_err (change_of lastp o_close) (\<lambda>net.
     bind_err (change_percent_of lastp o_close) (\<lambda>net_pct.
     bind_err (change_of lastp o_open) (\<lambda>dayc.
     bind_err (change_percent_of lastp o_open) (\<lambda>day_pct.
     bind_err (qget q ''iv'') (\<lambda>iv_val.
       Inr \<lparr>timestamp = rounded_now C, index = index_name idx, bucket = label,
            side = side_name, expiry = isoformat target, atm_strike_field = atm,
            last_price = lastp, days_to_expiry = toordinal target - toordinal (today C),
            average_price = avg, volume = vol, oi = oi_curr, oi_open = oi_open_val,
            oi_change = oi_chg, ohlc_open = o_open, ohlc_high = o_high, ohlc_low = o_low,
            ohlc_close = o_close, net_change = net, net_change_percent = net_pct,
            day_change = dayc, day_change_percent = day_pct, iv = iv_val\<rparr>)))))))))))))))"

text \<open>
  Lines 179-183: the snapshot file of a leg. Nothing catches what \<open>mkdir\<close>, \<open>open\<close> or
  \<open>json.dump\<close> raise.
\<close>

definition snapshot_path :: "collector \<Rightarrow> leg \<Rightarrow> string" where
  "snapshot_path C r =
     raw_dir C @ ''/'' @ bucket r @ ''/'' @ index r @ ''_'' @ side r @ ''_'' @ bucket r
       @ ''_'' @ expiry r @ ''_'' @ snapshot_time C @ ''.json''"

definition write_snapshot :: "collector \<Rightarrow> leg \<Rightarrow> state \<Rightarrow> pyerr option \<times> state" where
  "write_snapshot C r S =
     (let S1 = S\<lparr>file_writes := Suc (file_writes S)\<rparr> in
      if file_write_raises C (file_writes S) then (Some OSError, S1)
      else (None, S1\<lparr>files := files S1 @ [(snapshot_path C r, r)]\<rparr>))"

text \<open>
  influx\_sink.py: \<open>_ffloat\<close>, \<open>_fint\<close> (\<open>int()\<close> truncates towards zero) and
  \<open>write_atm_leg\<close>, whose \<open>try\<close> catches every exception of its body.
\<close>

definition ffloat :: "pyval \<Rightarrow> pyval" where
  "ffloat v = (if is_num v then PFloat (num_of v) else PNone)"

definition fint :: "pyval \<Rightarrow> pyval" where
  "fint v =
     (if is_num v
      then PInt (if num_of v < 0 then - \<lfloor>- num_of v\<rfloor> else \<lfloor>num_of v\<rfloor>)
      else PNone)"

definition leg_point :: "leg \<Rightarrow> point" where
  "leg_point r =
     \<lparr>measurement = ''atm_option_quote'',
      point_tags =
        [(''index'', index r),
         (''option_type'', if side r = ''CALL'' then ''CE'' else ''PE''),
         (''expiration'', expiry r),
         (''strike'', str_of_int (atm_strike_field r)),
         (''bucket'', bucket r)],
      point_fields = filter (\<lambda>kv. snd kv \<noteq> PNone)
        [(''last_price'', ffloat (last_price r)),
         (''average_price'', ffloat (average_price r)),
         (''ohlc_open'', ffloat (ohlc_open r)),
         (''ohlc_high'', ffloat (ohlc_high r)),
         (''ohlc_low'', ffloat (ohlc_low r)),
         (''ohlc_close'', ffloat (ohlc_close r)),
         (''net_change'', ffloat (net_change r)),
         (''net_change_percent'', ffloat (net_change_percent r)),
         (''day_change'', ffloat (day_change r)),
         (''day_change_percent'', ffloat (day_change_percent r)),
         (''iv'', ffloat (iv r)),
         (''volume'', fint (volume r)),
         (''oi'', fint (oi r)),
         (''oi_open'', fint (oi_open r)),
         (''oi_change'', fint (oi_change r)),
         (''days_to_expiry'', fint (PInt (days_to_expiry r))),
         (''atm_strike_val'', fint (PInt (atm_strike_field r)))],
      point_time = timestamp r\<rparr>"

definition write_atm_leg :: "collector \<Rightarrow> leg \<Rightarrow> state \<Rightarrow> state" where
  "write_atm_leg C r S =
     (let S1 = S\<lparr>influx_writes := Suc (influx_writes S)\<rparr> in
      if influx_raises C (influx_writes S) then S1
      else if point_fields (leg_point r) = [] then S1
      else S1\<lparr>points := points S1 @ [leg_point r]\<rparr>)"

text \<open>Lines 136-190: the body of the loop over the two sides of a bucket.\<close>

definition process_leg ::
  "collector \<Rightarrow> index \<Rightarrow> string \<Rightarrow> date \<Rightarrow> int \<Rightarrow> string \<times> string \<times> pyval
    \<Rightarrow> state \<Rightarrow> pyerr option \<times> state" where
  "process_leg C idx label target atm p S =
     (case p of (side_name, tkn, q) \<Rightarrow>
        (case make_leg C idx label target atm side_name (map_get (oi_open_map S) tkn) q of
           Inl e \<Rightarrow> (Some e, S)
         | Inr r \<Rightarrow>
             then_do (write_snapshot C r)
               (\<lambda>S2. (None, if influx_writer C then write_atm_leg C r S2 else S2))
               (S\<lparr>legs := legs S @ [r]\<rparr>)))"

text \<open>Lines 104-106: the joint quote of a bucket.\<close>

definition bucket_quotes ::
  "collector \<Rightarrow> string \<Rightarrow> string \<Rightarrow> effects \<Rightarrow> (pyerr + pyval \<times> pyval) \<times> effects" where
  "bucket_quotes C ce_tkn pe_tkn w =
     (case safe_call (kite C) ''quote'' [ce_tkn, pe_tkn] w of
        (r, w1) \<Rightarrow>
          (bind_err r (\<lambda>v.
             let qdata = (if truthy v then v else PDict []) in
             bind_err (qget_default qdata ce_tkn (PDict [])) (\<lambda>ce_q.
             bind_err (qget_default qdata pe_tkn (PDict [])) (\<lambda>pe_q. Inr (ce_q, pe_q)))),
           w1))"

text \<open>Lines 98-190: the body of the loop over the buckets of an index.\<close>

definition process_bucket ::
  "collector \<Rightarrow> index \<Rightarrow> int \<Rightarrow> instrument list \<Rightarrow> string \<times> date option
    \<Rightarrow> state \<Rightarrow> pyerr option \<times> state" where
  "process_bucket C idx atm pool p S =
     (case p of
        (label, None) \<Rightarrow> (None, S)
      | (label, Some target) \<Rightarrow>
          (case get_tokens pool idx atm target of
             (Some ce_tkn, Some pe_tkn) \<Rightarrow>
               if ce_tkn = [] \<or> pe_tkn = [] then (None, S)
               else
                 (case bucket_quotes C ce_tkn pe_tkn (fx S) of
                    (Inl e, w) \<Rightarrow> (Some e, S\<lparr>fx := w\<rparr>)
                  | (Inr (ce_q, pe_q), w) \<Rightarrow>
                      then_do (for_each seed_maps [(ce_tkn, ce_q), (pe_tkn, pe_q)])
                        (then_do (bucket_overview C idx label target ce_q pe_q)
                           (for_each (process_leg C idx label target atm)
                              [(''CALL'', ce_tkn, ce_q), (''PUT'', pe_tkn, pe_q)]))
                        (S\<lparr>fx := w\<rparr>))
           | _ \<Rightarrow> (None, S)))"

text \<open>Lines 81-190: the body of the loop over the indices.\<close>

definition collect_index :: "collector \<Rightarrow> index \<Rightarrow> state \<Rightarrow> pyerr option \<times> state" where
  "collect_index C idx S =
     (case spot_price C idx (fx S) of
        (Inl e, w) \<Rightarrow> (Some e, S\<lparr>fx := w\<rparr>)
      | (Inr spot, w) \<Rightarrow>
          (let S1 = S\<lparr>fx := w\<rparr> in
           if spot = PNone then (None, S1)
           else
             (case atm_strike spot (STEP idx) of
                Inl e \<Rightarrow> (Some e, S1)
              | Inr atm \<Rightarrow>
                  (let pool = pool_for_idx C idx;
                       exps = (if use_dynamic_expiries C then discover_expiries_for_idx C idx atm
                               else [])
                   in case bucket_pairs idx exps of
                        Inl e \<Rightarrow> (Some e, S1)
                      | Inr pairs \<Rightarrow>
                          for_each (process_bucket C idx atm pool) pairs
                            (S1\<lparr>overview_aggs :=
                                  (overview_aggs S1)(index_name idx \<mapsto> Map.empty)\<rparr>)))))"

text \<open>
  Lines 75-192: one cycle. The result is the returned dict (\<open>legs\<close> and
  \<open>overview_aggs\<close>) or the exception that leaves \<open>collect\<close>, with the state left behind.
\<close>

definition collect ::
  "collector \<Rightarrow> state
    \<Rightarrow> (pyerr + leg list \<times> (string \<rightharpoonup> (string \<rightharpoonup> overview))) \<times> state" where
  "collect C S =
     (case for_each (collect_index C) [NIFTY, SENSEX, BANKNIFTY]
             (S\<lparr>legs := [], overview_aggs := Map.empty\<rparr>) of
        (Some e, S1) \<Rightarrow> (Inl e, S1)
      | (None, S1) \<Rightarrow> (Inr (legs S1, overview_aggs S1), S1))"

section \<open>Predicates used in the proofs\<close>

text \<open>Line 36: the test that classifies an outcome as an authentication failure.\<close>

definition is_auth_failure :: "outcome \<Rightarrow> bool" where
  "is_auth_failure out =
     (case out of
        RaisesKite ex \<Rightarrow>
          str_in ''TokenException'' (type_str ex) \<or> str_in ''TokenException'' (message ex)
      | _ \<Rightarrow> False)"

text \<open>
  Line 77 with line 83: an HTTP 429 whose \<open>Retry-After\<close> header is a negative
  integer.
\<close>

definition has_negative_hint :: "outcome \<Rightarrow> bool" where
  "has_negative_hint out =
     (case out of
        RaisesHTTP (Some (status_code, IntValue n)) \<Rightarrow> status_code = 429 \<and> n < 0
      | _ \<Rightarrow> False)"


text \<open>
  The relations between the fields of an emitted leg record and of an emitted
  overview entry that the proofs establish: each derived field is what its expression
  in the source gives on the other fields of the same record.
\<close>

definition leg_consistent :: "leg \<Rightarrow> bool" where
  "leg_consistent r =
     (Inr (oi_change r) = oi_change_of (oi_open r) (oi r)
      \<and> Inr (net_change r) = change_of (last_price r) (ohlc_close r)
      \<and> Inr (net_change_percent r) = change_percent_of (last_price r) (ohlc_close r)
      \<and> Inr (day_change r) = change_of (last_price r) (ohlc_open r)
      \<and> Inr (day_change_percent r) = change_percent_of (last_price r) (ohlc_open r))"

definition overview_consistent :: "overview \<Rightarrow> bool" where
  "overview_consistent ov =
     (is_num (TP ov)
      \<and> PCR ov = (case (OI_CALL ov, OI_PUT ov) of
                    (PInt c, PInt p) \<Rightarrow> if c \<noteq> 0 then PFloat (of_int p / of_int c) else PNone
                  | _ \<Rightarrow> PNone)
      \<and> Inr (iv_day_change ov) = iv_day_change_of (iv_open ov) (atm_iv ov))"

definition all_consistent :: "state \<Rightarrow> bool" where
  "all_consistent S =
     (list_all leg_consistent (legs S)
      \<and> (\<forall>i m l ov. overview_aggs S i = Some m \<and> m l = Some ov \<longrightarrow> overview_consistent ov))"

text \<open>Every baseline of \<open>S\<close> is a baseline of \<open>S'\<close>, with the same value.\<close>

definition keeps_baselines :: "state \<Rightarrow> state \<Rightarrow> bool" where
  "keeps_baselines S S' =
     ((\<forall>k v. oi_open_map S k = Some v \<longrightarrow> oi_open_map S' k = Some v)
      \<and> (\<forall>k v. iv_open_map S k = Some v \<longrightarrow> iv_open_map S' k = Some v))"

text \<open>
  A statement is sound when it keeps the baselines, keeps the emitted records
  consistent, and does not raise \<open>ZeroDivisionError\<close>.
\<close>

definition sound_stmt :: "(state \<Rightarrow> pyerr option \<times> state) \<Rightarrow> bool" where
  "sound_stmt f =
     (\<forall>S. keeps_baselines S (snd (f S))
          \<and> (all_consistent S \<longrightarrow> all_consistent (snd (f S)))
          \<and> fst (f S) \<noteq> Some ZeroDivisionError)"

section \<open>Concrete inputs\<close>

text \<open>The state of a fresh process.\<close>

definition idle :: effects where
  "idle = \<lparr>calls = 0, refreshes = 0, sleeps = []\<rparr>"

definition token_exception :: kite_exception where
  "token_exception =
     \<lparr>type_str = ''kiteconnect.exceptions.TokenException'',
      message = ''Incorrect api_key or access_token.'',
      code = Some 403, response_headers = None\<rparr>"

definition spot_payload :: pyval where
  "spot_payload =
     PDict [(''NSE:NIFTY 50'', PDict [(''last_price'', PFloat 24821)]),
            (''BSE:SENSEX'', PDict [(''last_price'', PFloat 81234)]),
            (''NSE:NIFTY BANK'', PDict [(''last_price'', PFloat 51010)])]"

text \<open>A broker whose every call fails with a \<open>TokenException\<close>.\<close>

definition always_auth_failure :: broker where
  "always_auth_failure = \<lparr>kite_api = (\<lambda>n m a. RaisesKite token_exception)\<rparr>"

text \<open>A broker whose first three calls fail with a \<open>TokenException\<close> and whose fourth
  call returns the quotes.\<close>

definition three_auth_failures_then_ok :: broker where
  "three_auth_failures_then_ok =
     \<lparr>kite_api = (\<lambda>n m a. if n < 3 then RaisesKite token_exception else Returns spot_payload)\<rparr>"

text \<open>
  A broker whose call fails with an HTTP 429 that carries the header
  \<open>Retry-After: -5\<close>.
\<close>

definition negative_retry_after :: broker where
  "negative_retry_after =
     \<lparr>kite_api = (\<lambda>n m a. RaisesHTTP (Some (429, IntValue (- 5))))\<rparr>"

text \<open>
  A collector for one cycle on 4 November 2026: the instrument dump holds the NIFTY
  24800 call and put that expire on 26 November 2026, discovery finds that expiry as
  this month's, and every broker call returns the same quotes (spot 24821 for NIFTY,
  none for the other two indices; call: last price 120.5, open interest 1000, OHLC
  close 110; put: last price 95.25, open interest 1200, OHLC close 0).
\<close>

definition nov26 :: date where
  "nov26 = \<lparr>year = 2026, month = 11, day = 26\<rparr>"

definition nifty_call :: instrument where
  "nifty_call =
     \<lparr>segment = ''NFO-OPT'', strike = PFloat 24800, tradingsymbol = ''NIFTY26NOV24800CE'',
      parsed_expiry = Some nov26, instrument_type = ''CE'', instrument_token = ''101''\<rparr>"

definition nifty_put :: instrument where
  "nifty_put =
     \<lparr>segment = ''NFO-OPT'', strike = PFloat 24800, tradingsymbol = ''NIFTY26NOV24800PE'',
      parsed_expiry = Some nov26, instrument_type = ''PE'', instrument_token = ''102''\<rparr>"

definition call_quote :: pyval where
  "call_quote =
     PDict [(''last_price'', PFloat (241 / 2)), (''oi'', PInt 1000), (''iv'', PFloat 12),
            (''ohlc'', PDict [(''open'', PInt 100), (''close'', PInt 110)])]"

definition put_quote :: pyval where
  "put_quote =
     PDict [(''last_price'', PFloat (381 / 4)), (''oi'', PInt 1200), (''iv'', PFloat 14),
            (''ohlc'', PDict [(''open'', PInt 100), (''close'', PInt 0)])]"

definition nifty_quotes :: pyval where
  "nifty_quotes =
     PDict [(''NSE:NIFTY 50'', PDict [(''last_price'', PFloat 24821)]),
            (''101'', call_quote), (''102'', put_quote)]"

definition nifty_collector :: collector where
  "nifty_collector =
     \<lparr>kite = \<lparr>kite_api = (\<lambda>n m a. Returns nifty_quotes)\<rparr>,
      insts_nfo = [nifty_call, nifty_put],
      insts_bfo = [],
      raw_dir = ''data/raw_snapshots/options'',
      use_dynamic_expiries = True,
      influx_writer = True,
      discover_weeklies_for_index = (\<lambda>nfo bfo idx atm. []),
      discover_monthlies_for_index = (\<lambda>nfo bfo idx atm. (Some nov26, None)),
      today = \<lparr>year = 2026, month = 11, day = 4\<rparr>,
      snapshot_time = ''20261104_101500'',
      rounded_now = ''2026-11-04T10:15:00+05:30'',
      file_write_raises = (\<lambda>n. False),
      influx_raises = (\<lambda>n. False)\<rparr>"

text \<open>The same collector with a given behaviour of the snapshot writes.\<close>

definition nifty_collector_on :: "(nat \<Rightarrow> bool) \<Rightarrow> collector" where
  "nifty_collector_on fw = nifty_collector\<lparr>file_write_raises := fw\<rparr>"

text \<open>The same collector on a disk that refuses every snapshot write.\<close>

definition disk_full_collector :: collector where
  "disk_full_collector = nifty_collector_on (\<lambda>n. True)"

text \<open>
  The same collector with dynamic discovery disabled, and a broker that returns the
  spot prices of all three indices.
\<close>

definition static_collector :: collector where
  "static_collector =
     nifty_collector\<lparr>use_dynamic_expiries := False,
                      kite := \<lparr>kite_api = (\<lambda>n m a. Returns spot_payload)\<rparr>\<rparr>"

text \<open>The state of a collector that has not run a cycle yet.\<close>

definition fresh :: state where
  "fresh =
     \<lparr>fx = idle, oi_open_map = Map.empty, iv_open_map = Map.empty, files = [],
      file_writes = 0, points = [], influx_writes = 0, legs = [],
      overview_aggs = Map.empty\<rparr>"

text \<open>
  The state later in the session: the call was first seen with open interest 1100,
  the put has not been seen yet, and the first averaged implied volatility of the
  bucket was 15.
\<close>

definition seeded :: state where
  "seeded =
     fresh\<lparr>oi_open_map := [''101'' \<mapsto> PInt 1100],
           iv_open_map := [''101'' \<mapsto> PFloat 16, ''NIFTY_this_month_iv_open'' \<mapsto> PFloat 15]\<rparr>"

text \<open>The records that cycle emits from the state \<open>seeded\<close>.\<close>

definition call_leg :: leg where
  "call_leg =
     \<lparr>timestamp = ''2026-11-04T10:15:00+05:30'', index = ''NIFTY'', bucket = ''this_month'',
      side = ''CALL'', expiry = ''2026-11-26'', atm_strike_field = 24800,
      last_price = PFloat (241 / 2), days_to_expiry = 22, average_price = PNone,
      volume = PNone, oi = PInt 1000, oi_open = PInt 1100, oi_change = PInt 100,
      ohlc_open = PInt 100, ohlc_high = PNone, ohlc_low = PNone, ohlc_close = PInt 110,
      net_change = PFloat (21 / 2), net_change_percent = PFloat (105 / 11),
      day_change = PFloat (41 / 2), day_change_percent = PFloat (41 / 2),
      iv = PFloat 12\<rparr>"

definition put_leg :: leg where
  "put_leg =
     \<lparr>timestamp = ''2026-11-04T10:15:00+05:30'', index = ''NIFTY'', bucket = ''this_month'',
      side = ''PUT'', expiry = ''2026-11-26'', atm_strike_field = 24800,
      last_price = PFloat (381 / 4), days_to_expiry = 22, average_price = PNone,
      volume = PNone, oi = PInt 1200, oi_open = PInt 1200, oi_change = PInt 0,
      ohlc_open = PInt 100, ohlc_high = PNone, ohlc_low = PNone, ohlc_close = PInt 0,
      net_change = PFloat (381 / 4), net_change_percent = PNone,
      day_change = PFloat (- 19 / 4), day_change_percent = PFloat (- 19 / 4),
      iv = PFloat 14\<rparr>"

definition this_month_overview :: overview where
  "this_month_overview =
     \<lparr>TP = PFloat (863 / 4), OI_CALL = PInt 1000, OI_PUT = PInt 1200, PCR = PFloat (6 / 5),
      atm_iv = PFloat 13, iv_open = PFloat 15, iv_day_change = PFloat 2,
      overview_days_to_expiry = 22\<rparr>"

text \<open>The exception a result carries, if any.\<close>

fun raised_by :: "pyerr + 'a \<Rightarrow> pyerr option" where
  "raised_by (Inl e) = Some e"
| "raised_by (Inr v) = None"

section \<open>Properties of the ATM strike\<close>












section \<open>Properties of safe\_call\<close>

lemma safe_call_loop_returns:
  assumes "kite_api B (calls w) m a = Returns v"
  shows "safe_call_loop B m a attempt w = (Inr v, w\<lparr>calls := Suc (calls w)\<rparr>)"
  using assms by (subst safe_call_loop.simps) (simp add: Let_def)

lemma safe_call_loop_auth_failure:
  assumes "is_auth_failure (kite_api B (calls w) m a)"
  shows "safe_call_loop B m a attempt w =
    (if attempt + 1 > max_retries
     then (Inr (PDict []), w\<lparr>calls := Suc (calls w), refreshes := Suc (refreshes w)\<rparr>)
     else safe_call_loop B m a (attempt + 1)
            (w\<lparr>calls := Suc (calls w), refreshes := Suc (refreshes w)\<rparr>))"
  using assms
  by (subst safe_call_loop.simps)
     (auto simp: is_auth_failure_def Let_def split: outcome.splits)

lemma safe_call_four_auth_failures:
  assumes "\<forall>n<4. is_auth_failure (kite_api B (calls w + n) m a)"
  shows "safe_call B m a w
           = (Inr (PDict []), w\<lparr>calls := calls w + 4, refreshes := refreshes w + 4\<rparr>)"
proof -
  have a0: "is_auth_failure (kite_api B (calls w) m a)"
    using assms by force
  have a1: "is_auth_failure (kite_api B (Suc (calls w)) m a)"
    using assms[rule_format, of 1] by simp
  have a2: "is_auth_failure (kite_api B (Suc (Suc (calls w))) m a)"
    using assms[rule_format, of 2] by simp
  have a3: "is_auth_failure (kite_api B (Suc (Suc (Suc (calls w)))) m a)"
    using assms[rule_format, of 3] by (simp add: eval_nat_numeral)
  show ?thesis
    unfolding safe_call_def
    by (simp add: safe_call_loop_auth_failure a0 a1 a2 a3 max_retries_def)
qed

text \<open>
  One iteration of the loop either leaves \<open>safe_call\<close> after one more broker call, or
  goes round again with the attempt counted; it refreshes the token at most once.
\<close>

lemma safe_call_loop_iteration:
  "(\<exists>r w'. safe_call_loop B m a attempt w = (r, w') \<and> calls w' = Suc (calls w)
        \<and> refreshes w' \<le> Suc (refreshes w) \<and> refreshes w \<le> refreshes w')
   \<or> (attempt + 1 \<le> max_retries \<and>
       (\<exists>w2. safe_call_loop B m a attempt w = safe_call_loop B m a (attempt + 1) w2
          \<and> calls w2 = Suc (calls w) \<and> refreshes w2 \<le> Suc (refreshes w)
          \<and> refreshes w \<le> refreshes w2))"
proof -
  note eq = safe_call_loop.simps[of B m a attempt w]
  show ?thesis
  proof (cases "kite_api B (calls w) m a")
    case (Returns v)
    then show ?thesis by (simp add: eq Let_def)
  next
    case (RaisesKite ex)
    then show ?thesis
      by (auto simp add: eq Let_def time_sleep_def)
  next
    case (RaisesHTTP resp)
    then show ?thesis
      by (auto simp add: eq Let_def time_sleep_def split: option.splits)
  next
    case RaisesOther
    then show ?thesis by (simp add: eq Let_def)
  qed
qed

lemma safe_call_loop_bounded:
  "attempt \<le> max_retries \<Longrightarrow> max_retries - attempt \<le> k \<Longrightarrow>
   calls (snd (safe_call_loop B m a attempt w)) \<le> calls w + (max_retries + 1 - attempt)
   \<and> calls w < calls (snd (safe_call_loop B m a attempt w))
   \<and> refreshes (snd (safe_call_loop B m a attempt w))
       \<le> refreshes w + (max_retries + 1 - attempt)
   \<and> refreshes w \<le> refreshes (snd (safe_call_loop B m a attempt w))"
proof (induction k arbitrary: attempt w)
  case 0
  from safe_call_loop_iteration[of B m a attempt w] show ?case
    using 0 by auto
next
  case (Suc k)
  from safe_call_loop_iteration[of B m a attempt w] show ?case
  proof
    assume "\<exists>r w'. safe_call_loop B m a attempt w = (r, w') \<and> calls w' = Suc (calls w)
        \<and> refreshes w' \<le> Suc (refreshes w) \<and> refreshes w \<le> refreshes w'"
    then show ?thesis using Suc.prems by auto
  next
    assume "attempt + 1 \<le> max_retries \<and>
       (\<exists>w2. safe_call_loop B m a attempt w = safe_call_loop B m a (attempt + 1) w2
          \<and> calls w2 = Suc (calls w) \<and> refreshes w2 \<le> Suc (refreshes w)
          \<and> refreshes w \<le> refreshes w2)"
    then obtain w2 where le: "attempt + 1 \<le> max_retries"
      and h: "safe_call_loop B m a attempt w = safe_call_loop B m a (attempt + 1) w2"
        "calls w2 = Suc (calls w)" "refreshes w2 \<le> Suc (refreshes w)"
        "refreshes w \<le> refreshes w2"
      by blast
    have "max_retries - (attempt + 1) \<le> k" using Suc.prems le by arith
    from Suc.IH[OF le this, of w2] have ih:
      "calls (snd (safe_call_loop B m a (attempt + 1) w2))
         \<le> calls w2 + (max_retries + 1 - (attempt + 1))"
      "calls w2 < calls (snd (safe_call_loop B m a (attempt + 1) w2))"
      "refreshes (snd (safe_call_loop B m a (attempt + 1) w2))
         \<le> refreshes w2 + (max_retries + 1 - (attempt + 1))"
      "refreshes w2 \<le> refreshes (snd (safe_call_loop B m a (attempt + 1) w2))"
      by blast+
    show ?thesis unfolding h(1) using ih h(2-) le by arith
  qed
qed

text \<open>
  With no negative \<open>Retry-After\<close> hint on an HTTP 429, no path of the loop raises:
  \<open>safe_call\<close> returns a payload or the empty result.
\<close>

lemma delays_not_negative:
  "0 \<le> kite_delay ra attempt"
  "(\<And>n. ra = Some n \<Longrightarrow> 0 \<le> n) \<Longrightarrow> 0 \<le> http_delay ra attempt"
  by (auto simp: kite_delay_def http_delay_def base_delay_def split: option.splits)

lemma safe_call_loop_iteration_returns:
  assumes "\<not> has_negative_hint (kite_api B (calls w) m a)"
  shows "(\<exists>v w'. safe_call_loop B m a attempt w = (Inr v, w'))
   \<or> (attempt + 1 \<le> max_retries \<and>
       (\<exists>w2. safe_call_loop B m a attempt w = safe_call_loop B m a (attempt + 1) w2
          \<and> calls w2 = Suc (calls w)))"
proof -
  note eq = safe_call_loop.simps[of B m a attempt w]
  show ?thesis
  proof (cases "kite_api B (calls w) m a")
    case (Returns v)
    then show ?thesis by (simp add: eq Let_def)
  next
    case (RaisesKite ex)
    have "\<not> kite_delay (kite_retry_after (response_headers ex)) attempt < 0"
      using delays_not_negative(1)[of "kite_retry_after (response_headers ex)" attempt] by simp
    with RaisesKite show ?thesis
      by (auto simp add: eq Let_def time_sleep_def)
  next
    case (RaisesHTTP resp)
    show ?thesis
    proof (cases resp)
      case None
      with RaisesHTTP show ?thesis by (simp add: eq Let_def)
    next
      case (Some sh)
      obtain sc hdr where sh: "sh = (sc, hdr)" by (cases sh)
      show ?thesis
      proof (cases "sc = 429")
        case False
        with RaisesHTTP Some sh show ?thesis by (simp add: eq Let_def)
      next
        case True
        have "\<And>n. http_retry_after hdr = Some n \<Longrightarrow> 0 \<le> n"
          using assms RaisesHTTP Some sh True
          by (cases hdr) (auto simp: has_negative_hint_def)
        then have "\<not> http_delay (http_retry_after hdr) attempt < 0"
          using delays_not_negative(2)[of "http_retry_after hdr" attempt] by simp
        with RaisesHTTP Some sh True show ?thesis
          by (auto simp add: eq Let_def time_sleep_def)
      qed
    qed
  next
    case RaisesOther
    then show ?thesis by (simp add: eq Let_def)
  qed
qed

lemma safe_call_loop_returns_without_negative_hint:
  assumes "\<forall>n. \<not> has_negative_hint (kite_api B n m a)"
  shows "max_retries - attempt \<le> k \<Longrightarrow> \<exists>v w'. safe_call_loop B m a attempt w = (Inr v, w')"
proof (induction k arbitrary: attempt w)
  case 0
  from safe_call_loop_iteration_returns[of B w m a attempt] assms 0 show ?case by auto
next
  case (Suc k)
  from assms have "\<not> has_negative_hint (kite_api B (calls w) m a)" by blast
  from safe_call_loop_iteration_returns[OF this, of attempt] show ?case
  proof
    assume "\<exists>v w'. safe_call_loop B m a attempt w = (Inr v, w')" then show ?thesis .
  next
    assume "attempt + 1 \<le> max_retries \<and>
       (\<exists>w2. safe_call_loop B m a attempt w = safe_call_loop B m a (attempt + 1) w2
          \<and> calls w2 = Suc (calls w))"
    then obtain w2 where le: "attempt + 1 \<le> max_retries"
      and h: "safe_call_loop B m a attempt w = safe_call_loop B m a (attempt + 1) w2" by blast
    have "max_retries - (attempt + 1) \<le> k" using Suc.prems le by arith
    from Suc.IH[OF this, of w2] show ?thesis unfolding h .
  qed
qed

lemma safe_call_returns_without_negative_hint:
  assumes "\<forall>n. \<not> has_negative_hint (kite_api B n m a)"
  shows "\<exists>v w'. safe_call B m a w = (Inr v, w')"
  unfolding safe_call_def
  by (rule safe_call_loop_returns_without_negative_hint[OF assms, of 0 max_retries]) simp

lemma token_exception_is_auth_failure: "is_auth_failure (RaisesKite token_exception)"
  by (simp add: is_auth_failure_def token_exception_def)

text \<open>
  C1 (the code raises where the claim says it never does). An HTTP 429 whose
  \<open>Retry-After\<close> header is the integer -5 makes line 83 compute the delay
  \<open>min(-5, 2.0) = -5\<close>, and \<open>time.sleep(-5)\<close> on line 85 raises \<open>ValueError\<close> inside the
  \<open>except\<close> block, where no handler catches it: \<open>safe_call\<close> propagates the exception
  after a single broker call. The \<open>KiteException\<close> branch guards the same hint with
  \<open>retry_after > 0\<close> (line 58).
\<close>

theorem safe_call_negative_retry_after_raises:
  "safe_call negative_retry_after ''quote'' [''NSE:NIFTY 50''] idle
     = (Inl ValueError, \<lparr>calls = 1, refreshes = 0, sleeps = []\<rparr>)"
  unfolding safe_call_def
  by (subst safe_call_loop.simps)
     (simp add: negative_retry_after_def idle_def time_sleep_def http_delay_def)

text \<open>
  C2, as stated, fails. After three consecutive authentication failures the loop
  makes a fourth call (\<open>attempt > max_retries\<close> is \<open>3 > 3\<close>), and returns its payload:
  the result is not the empty result. And when every call fails, the empty result
  comes after four calls and four token refreshes, not three.
\<close>

theorem safe_call_three_auth_failures_counterexample:
  "safe_call three_auth_failures_then_ok ''quote'' [''NSE:NIFTY 50''] idle
     = (Inr spot_payload, \<lparr>calls = 4, refreshes = 3, sleeps = []\<rparr>)
   \<and> spot_payload \<noteq> PDict []
   \<and> safe_call always_auth_failure ''quote'' [''NSE:NIFTY 50''] idle
     = (Inr (PDict []), \<lparr>calls = 4, refreshes = 4, sleeps = []\<rparr>)"
proof -
  have "safe_call three_auth_failures_then_ok ''quote'' [''NSE:NIFTY 50''] idle
     = (Inr spot_payload, \<lparr>calls = 4, refreshes = 3, sleeps = []\<rparr>)"
    unfolding safe_call_def
    by (simp add: safe_call_loop_auth_failure safe_call_loop_returns
        three_auth_failures_then_ok_def token_exception_is_auth_failure
        max_retries_def idle_def)
  moreover have "spot_payload \<noteq> PDict []"
    by (simp add: spot_payload_def)
  moreover have "safe_call always_auth_failure ''quote'' [''NSE:NIFTY 50''] idle
     = (Inr (PDict []), \<lparr>calls = 4, refreshes = 4, sleeps = []\<rparr>)"
    unfolding safe_call_def
    by (simp add: safe_call_loop_auth_failure always_auth_failure_def
        token_exception_is_auth_failure max_retries_def idle_def)
  ultimately show ?thesis by blast
qed

text \<open>
  C2, amended. If four consecutive calls (the first attempt and its three retries)
  fail with an authentication failure, \<open>safe_call\<close> returns the empty result, raises
  nothing, and has refreshed the token exactly four times, once per failure. Whatever
  the broker does, one \<open>safe_call\<close> makes at least one and at most \<open>1 + max_retries = 4\<close>
  broker calls, that is at most 3 retries, and at most 4 token refreshes.
\<close>

theorem safe_call_auth_retry_cap:
  "((\<forall>n<4. is_auth_failure (kite_api B (calls w + n) m a)) \<longrightarrow>
      safe_call B m a w
        = (Inr (PDict []), w\<lparr>calls := calls w + 4, refreshes := refreshes w + 4\<rparr>))
   \<and> calls w < calls (snd (safe_call B m a w))
   \<and> calls (snd (safe_call B m a w)) \<le> calls w + 1 + max_retries
   \<and> refreshes (snd (safe_call B m a w)) \<le> refreshes w + 1 + max_retries
   \<and> max_retries = 3"
proof -
  have "calls (snd (safe_call B m a w)) \<le> calls w + (max_retries + 1 - 0)
      \<and> calls w < calls (snd (safe_call B m a w))
      \<and> refreshes (snd (safe_call B m a w)) \<le> refreshes w + (max_retries + 1 - 0)
      \<and> refreshes w \<le> refreshes (snd (safe_call B m a w))"
    unfolding safe_call_def
    by (rule safe_call_loop_bounded[of 0 max_retries]) simp_all
  then show ?thesis
    using safe_call_four_auth_failures[of B w m a] by (simp add: max_retries_def)
qed

theorem safe_call_auth_retry_cap_witness:
  "is_auth_failure (kite_api always_auth_failure (calls idle + 0) ''quote'' [])
   \<and> is_auth_failure (kite_api always_auth_failure (calls idle + 1) ''quote'' [])
   \<and> is_auth_failure (kite_api always_auth_failure (calls idle + 2) ''quote'' [])
   \<and> is_auth_failure (kite_api always_auth_failure (calls idle + 3) ''quote'' [])
   \<and> safe_call always_auth_failure ''quote'' [] idle
       = (Inr (PDict []), \<lparr>calls = 4, refreshes = 4, sleeps = []\<rparr>)
   \<and> calls (snd (safe_call always_auth_failure ''quote'' [] idle)) \<le> 4"
proof -
  have h: "\<forall>n<4. is_auth_failure (kite_api always_auth_failure (calls idle + n) ''quote'' [])"
    by (simp add: always_auth_failure_def token_exception_is_auth_failure)
  from safe_call_auth_retry_cap[of always_auth_failure idle "''quote''" "[]"] h
  show ?thesis
    by (simp add: idle_def max_retries_def always_auth_failure_def
        token_exception_is_auth_failure)
qed

section \<open>Properties of the monthly expiry\<close>











section \<open>Properties of the derived fields and of a cycle\<close>

lemma py_sub_num:
  "is_num a \<Longrightarrow> is_num b \<Longrightarrow> \<exists>v. py_sub a b = Inr v \<and> is_num v \<and> num_of v = num_of a - num_of b"
  by (cases a; cases b) simp_all

lemma py_sub_int:
  "is_int a \<Longrightarrow> is_int b \<Longrightarrow> \<exists>i j. a = PInt i \<and> b = PInt j \<and> py_sub a b = Inr (PInt (i - j))"
  by (cases a; cases b) simp_all

lemma py_add_num:
  "is_num a \<Longrightarrow> is_num b \<Longrightarrow> \<exists>v. py_add a b = Inr v \<and> is_num v \<and> num_of v = num_of a + num_of b"
  by (cases a; cases b) simp_all

lemma is_int_num: "is_int v \<Longrightarrow> is_num v"
  by (cases v) simp_all

lemma change_of_total: "\<exists>v. change_of l b = Inr v"
  using py_sub_num[of l b] by (auto simp: change_of_def)

lemma change_percent_of_value:
  "change_percent_of l b =
     Inr (if is_num l \<and> is_num b \<and> num_of b \<noteq> 0
          then PFloat ((num_of l - num_of b) / num_of b * 100) else PNone)"
proof (cases "is_num l \<and> is_num b \<and> num_of b \<noteq> 0")
  case True
  then obtain d where d: "py_sub l b = Inr d" "is_num d" "num_of d = num_of l - num_of b"
    using py_sub_num[of l b] by blast
  have "py_truediv d b = Inr (PFloat (num_of d / num_of b))"
    using True d(2) by (simp add: py_truediv_def)
  then show ?thesis using True d
    by (simp add: change_percent_of_def ne_zero_def bind_err_def)
next
  case False
  then show ?thesis by (auto simp: change_percent_of_def ne_zero_def)
qed

lemma oi_change_of_value:
  "oi_change_of a b =
     Inr (case (a, b) of (PInt i, PInt j) \<Rightarrow> PInt (i - j) | _ \<Rightarrow> PNone)"
  by (cases a; cases b) (simp_all add: oi_change_of_def)

lemma iv_day_change_of_total:
  "\<exists>v. iv_day_change_of a b = Inr v \<and>
     (if is_num a \<and> is_num b then is_num v \<and> num_of v = num_of a - num_of b else v = PNone)"
  using py_sub_num[of a b] by (auto simp: iv_day_change_of_def)

lemma put_call_ratio_value:
  "put_call_ratio (PDict c) (PDict p) =
     Inr (case (dget c ''oi'', dget p ''oi'') of
            (PInt call, PInt put) \<Rightarrow> if call \<noteq> 0 then PFloat (of_int put / of_int call) else PNone
          | _ \<Rightarrow> PNone)"
  by (cases "dget c ''oi''"; cases "dget p ''oi''")
     (simp_all add: put_call_ratio_def qget_def bind_err_def py_truediv_def ne_zero_def)

lemma py_sum_two:
  "\<exists>v. py_sum (filter is_num [a, b]) = Inr v \<and> is_num v \<and>
      num_of v = (if is_num a then num_of a else 0) + (if is_num b then num_of b else 0)"
proof -
  have z: "\<And>x. is_num x \<Longrightarrow> \<exists>v. py_add (PInt 0) x = Inr v \<and> is_num v \<and> num_of v = num_of x"
    using py_add_num[of "PInt 0"] by simp
  show ?thesis
  proof (cases "is_num a")
    case True
    from z[OF True] obtain v where v: "py_add (PInt 0) a = Inr v" "is_num v" "num_of v = num_of a" by blast
    show ?thesis
    proof (cases "is_num b")
      case True
      from py_add_num[OF v(2) True] v \<open>is_num a\<close> True show ?thesis
        by (auto simp: py_sum_def bind_err_def)
    next
      case False
      with v \<open>is_num a\<close> show ?thesis by (auto simp: py_sum_def bind_err_def)
    qed
  next
    case False
    show ?thesis
    proof (cases "is_num b")
      case True
      from z[OF True] False True show ?thesis by (auto simp: py_sum_def bind_err_def)
    next
      case F2: False
      with False show ?thesis by (simp add: py_sum_def)
    qed
  qed
qed


lemma bind_err_Inr: "bind_err m f = Inr y \<longleftrightarrow> (\<exists>x. m = Inr x \<and> f x = Inr y)"
  by (cases m) (simp_all add: bind_err_def)

lemma bind_err_Inl: "bind_err m f = Inl e \<longleftrightarrow> m = Inl e \<or> (\<exists>x. m = Inr x \<and> f x = Inl e)"
  by (cases m) (simp_all add: bind_err_def)

lemma qget_Inl: "qget q k = Inl e \<Longrightarrow> e = AttributeError"
  by (cases q) (simp_all add: qget_def bind_err_def)

lemma qget_default_Inl: "qget_default q k d = Inl e \<Longrightarrow> e = AttributeError"
  by (cases q) (simp_all add: qget_default_def bind_err_def)

lemma qget_Inr: "qget q k = Inr v \<longleftrightarrow> (\<exists>d. q = PDict d \<and> v = dget d k)"
  by (cases q) (auto simp add: qget_def bind_err_def)

lemma oi_change_of_not_Inl: "oi_change_of a b \<noteq> Inl e"
  by (simp add: oi_change_of_value)

lemma change_of_not_Inl: "change_of l b \<noteq> Inl e"
  using change_of_total[of l b] by auto

lemma change_percent_of_not_Inl: "change_percent_of l b \<noteq> Inl e"
  by (simp add: change_percent_of_value)

lemma make_leg_fields:
  assumes "make_leg C idx label target atm sd oo q = Inr r"
  shows "oi_open r = oo \<and> (\<exists>d. q = PDict d \<and> oi r = dget d ''oi'' \<and> last_price r = dget d ''last_price'')
     \<and> Inr (oi_change r) = oi_change_of (oi_open r) (oi r)
     \<and> Inr (net_change r) = change_of (last_price r) (ohlc_close r)
     \<and> Inr (net_change_percent r) = change_percent_of (last_price r) (ohlc_close r)
     \<and> Inr (day_change r) = change_of (last_price r) (ohlc_open r)
     \<and> Inr (day_change_percent r) = change_percent_of (last_price r) (ohlc_open r)"
  using assms unfolding make_leg_def bind_err_Inr
  by (auto simp: qget_Inr)

lemma make_leg_Inl:
  assumes "make_leg C idx label target atm sd oo q = Inl e"
  shows "e = AttributeError"
  using assms unfolding make_leg_def bind_err_Inl
  by (auto dest: qget_Inl qget_default_Inl simp: oi_change_of_not_Inl change_of_not_Inl change_percent_of_not_Inl)


lemma py_add_not_Inl: "is_num x \<Longrightarrow> is_num y \<Longrightarrow> py_add x y \<noteq> Inl e"
  using py_add_num[of x y] by auto

lemma halve_not_Inl: "is_num x \<Longrightarrow> is_num y \<Longrightarrow> py_add x y = Inr s \<Longrightarrow> py_truediv s (PInt 2) \<noteq> Inl e"
  using py_add_num[of x y] by (auto simp: py_truediv_def)

lemma iv_average_Inl: "iv_average ce_q pe_q = Inl e \<Longrightarrow> e = AttributeError"
  unfolding iv_average_def
  by (auto dest: qget_Inl simp: bind_err_Inl py_add_not_Inl halve_not_Inl split: if_splits)

lemma total_premium_value:
  "\<exists>v. total_premium (PDict c) (PDict p) = Inr v \<and> is_num v \<and>
      num_of v = (if is_num (dget c ''last_price'') then num_of (dget c ''last_price'') else 0)
               + (if is_num (dget p ''last_price'') then num_of (dget p ''last_price'') else 0)"
  using py_sum_two[of "dget c ''last_price''" "dget p ''last_price''"]
  by (simp add: total_premium_def qget_def bind_err_def)

lemma total_premium_Inl: "total_premium ce_q pe_q = Inl e \<Longrightarrow> e = AttributeError"
proof (cases ce_q)
  case (PDict c)
  show "total_premium ce_q pe_q = Inl e \<Longrightarrow> e = AttributeError"
  proof (cases pe_q)
    case (PDict p)
    with \<open>ce_q = PDict c\<close> total_premium_value[of c p] show "total_premium ce_q pe_q = Inl e \<Longrightarrow> e = AttributeError" by auto
  qed (simp_all add: total_premium_def qget_def bind_err_def \<open>ce_q = PDict c\<close>)
qed (simp_all add: total_premium_def qget_def bind_err_def)

lemma put_call_ratio_Inl: "put_call_ratio ce_q pe_q = Inl e \<Longrightarrow> e = AttributeError"
proof (cases pe_q)
  case (PDict p)
  show "put_call_ratio ce_q pe_q = Inl e \<Longrightarrow> e = AttributeError"
  proof (cases ce_q)
    case (PDict c)
    with \<open>pe_q = PDict p\<close> show "put_call_ratio ce_q pe_q = Inl e \<Longrightarrow> e = AttributeError"
      by (simp add: put_call_ratio_value)
  qed (auto simp add: put_call_ratio_def qget_def bind_err_def \<open>pe_q = PDict p\<close> split: if_splits)
qed (simp_all add: put_call_ratio_def qget_def bind_err_def)

lemma make_overview_Inl:
  "make_overview tday target ce_q pe_q iv_avg iv_open_val iv_chg = Inl e \<Longrightarrow> e = AttributeError"
  unfolding make_overview_def bind_err_Inl
  by (auto dest: qget_Inl total_premium_Inl put_call_ratio_Inl)

lemma make_overview_fields:
  assumes "make_overview tday target ce_q pe_q iv_avg iv_open_val iv_chg = Inr ov"
  shows "\<exists>c p. ce_q = PDict c \<and> pe_q = PDict p
      \<and> Inr (TP ov) = total_premium ce_q pe_q
      \<and> OI_CALL ov = dget c ''oi'' \<and> OI_PUT ov = dget p ''oi''
      \<and> Inr (PCR ov) = put_call_ratio ce_q pe_q
      \<and> atm_iv ov = iv_avg \<and> iv_open ov = iv_open_val \<and> iv_day_change ov = iv_chg"
  using assms unfolding make_overview_def bind_err_Inr
  by (auto simp: qget_Inr)

lemma make_overview_consistent:
  assumes "make_overview tday target ce_q pe_q iv_avg iv_open_val iv_chg = Inr ov"
    and "iv_day_change_of iv_open_val iv_avg = Inr iv_chg"
  shows "overview_consistent ov"
proof -
  from make_overview_fields[OF assms(1)] obtain c p where f:
    "ce_q = PDict c" "pe_q = PDict p" "Inr (TP ov) = total_premium ce_q pe_q"
    "OI_CALL ov = dget c ''oi''" "OI_PUT ov = dget p ''oi''"
    "Inr (PCR ov) = put_call_ratio ce_q pe_q"
    "atm_iv ov = iv_avg" "iv_open ov = iv_open_val" "iv_day_change ov = iv_chg"
    by blast
  from f(3) total_premium_value[of c p] have tp: "is_num (TP ov)"
    unfolding f(1,2) by auto
  from f(6) have "PCR ov = (case (OI_CALL ov, OI_PUT ov) of
                    (PInt c, PInt p) \<Rightarrow> if c \<noteq> 0 then PFloat (of_int p / of_int c) else PNone
                  | _ \<Rightarrow> PNone)"
    unfolding f(1,2) put_call_ratio_value f(4,5) by simp
  with tp assms(2) f(7,8,9) show ?thesis
    by (simp add: overview_consistent_def)
qed


lemma keeps_baselines_refl: "keeps_baselines S S"
  by (simp add: keeps_baselines_def)

lemma keeps_baselines_trans:
  "keeps_baselines S S1 \<Longrightarrow> keeps_baselines S1 S2 \<Longrightarrow> keeps_baselines S S2"
  by (simp add: keeps_baselines_def)

lemma sound_stmtD:
  assumes "sound_stmt f"
  shows "keeps_baselines S (snd (f S))"
    and "all_consistent S \<Longrightarrow> all_consistent (snd (f S))"
    and "fst (f S) \<noteq> Some ZeroDivisionError"
  using assms by (simp_all add: sound_stmt_def)

lemma sound_then_do:
  assumes f: "sound_stmt f" and g: "sound_stmt g"
  shows "sound_stmt (then_do f g)"
  unfolding sound_stmt_def
proof (intro allI)
  fix S
  obtain r S1 where fs: "f S = (r, S1)" by (cases "f S")
  from sound_stmtD[OF f, of S] fs
  have f1: "keeps_baselines S S1" "all_consistent S \<Longrightarrow> all_consistent S1"
    "r \<noteq> Some ZeroDivisionError" by simp_all
  show "keeps_baselines S (snd (then_do f g S))
      \<and> (all_consistent S \<longrightarrow> all_consistent (snd (then_do f g S)))
      \<and> fst (then_do f g S) \<noteq> Some ZeroDivisionError"
  proof (cases r)
    case None
    then have td: "then_do f g S = g S1" by (simp add: then_do_def fs)
    from sound_stmtD[OF g, of S1] f1 show ?thesis
      unfolding td by (auto intro: keeps_baselines_trans)
  next
    case (Some e)
    then have td: "then_do f g S = (Some e, S1)" by (simp add: then_do_def fs)
    from f1 Some show ?thesis unfolding td by simp
  qed
qed

lemma sound_for_each:
  assumes body: "\<And>x. sound_stmt (body x)"
  shows "sound_stmt (for_each body xs)"
  unfolding sound_stmt_def
proof (induction xs)
  case Nil
  show ?case by (simp add: keeps_baselines_refl)
next
  case (Cons x xs)
  show ?case
  proof (intro allI)
    fix S
    obtain r S1 where fs: "body x S = (r, S1)" by (cases "body x S")
    from sound_stmtD[OF body[of x], of S] fs
    have f1: "keeps_baselines S S1" "all_consistent S \<Longrightarrow> all_consistent S1"
      "r \<noteq> Some ZeroDivisionError" by simp_all
    show "keeps_baselines S (snd (for_each body (x # xs) S))
      \<and> (all_consistent S \<longrightarrow> all_consistent (snd (for_each body (x # xs) S)))
      \<and> fst (for_each body (x # xs) S) \<noteq> Some ZeroDivisionError"
    proof (cases r)
      case None
      then have td: "for_each body (x # xs) S = for_each body xs S1" by (simp add: fs)
      from Cons.IH[rule_format, of S1] f1 show ?thesis
        unfolding td by (auto intro: keeps_baselines_trans)
    next
      case (Some e)
      then have td: "for_each body (x # xs) S = (Some e, S1)" by (simp add: fs)
      from f1 Some show ?thesis unfolding td by simp
    qed
  qed
qed

lemma sound_seed_oi: "sound_stmt (seed_oi tkn q)"
  by (auto simp: sound_stmt_def seed_oi_def keeps_baselines_def all_consistent_def
      split: sum.splits dest: qget_Inl)

lemma sound_seed_iv: "sound_stmt (seed_iv tkn q)"
  by (auto simp: sound_stmt_def seed_iv_def keeps_baselines_def all_consistent_def
      split: sum.splits dest: qget_Inl)

lemma sound_seed_maps: "sound_stmt (seed_maps p)"
proof -
  obtain tkn q where p: "p = (tkn, q)" by (cases p)
  have "seed_maps p = then_do (seed_oi tkn q) (seed_iv tkn q)"
    by (rule ext) (simp add: seed_maps_def p)
  then show ?thesis by (simp add: sound_then_do sound_seed_oi sound_seed_iv)
qed

lemma seed_iv_key_keeps: "keeps_baselines S (seed_iv_key k v S)"
  by (simp add: seed_iv_key_def keeps_baselines_def)

lemma seed_iv_key_consistent: "all_consistent (seed_iv_key k v S) = all_consistent S"
  by (simp add: seed_iv_key_def all_consistent_def)

lemma seed_iv_key_overview: "overview_aggs (seed_iv_key k v S) = overview_aggs S"
  by (simp add: seed_iv_key_def)


lemma iv_day_change_of_not_Inl: "iv_day_change_of a b \<noteq> Inl e"
  using iv_day_change_of_total[of a b] by auto

lemma sound_bucket_overview: "sound_stmt (bucket_overview C idx label target ce_q pe_q)"
  unfolding sound_stmt_def
proof (intro allI)
  fix S
  show "keeps_baselines S (snd (bucket_overview C idx label target ce_q pe_q S))
      \<and> (all_consistent S \<longrightarrow> all_consistent (snd (bucket_overview C idx label target ce_q pe_q S)))
      \<and> fst (bucket_overview C idx label target ce_q pe_q S) \<noteq> Some ZeroDivisionError"
  proof (cases "iv_average ce_q pe_q")
    case (Inl e)
    with iv_average_Inl[OF Inl] show ?thesis
      by (simp add: bucket_overview_def keeps_baselines_refl)
  next
    case (Inr iv_avg)
    define iv_key where "iv_key = index_name idx @ ''_'' @ label @ ''_iv_open''"
    define S1 where "S1 = seed_iv_key iv_key iv_avg S"
    define iv_open_val where "iv_open_val = map_get (iv_open_map S1) iv_key"
    define res where "res = bind_err (iv_day_change_of iv_open_val iv_avg) (\<lambda>iv_chg.
                     make_overview (today C) target ce_q pe_q iv_avg iv_open_val iv_chg)"
    have bo: "bucket_overview C idx label target ce_q pe_q S =
        (case res of
           Inl e \<Rightarrow> (Some e, S1)
         | Inr ov \<Rightarrow>
             (case overview_aggs S1 (index_name idx) of
                None \<Rightarrow> (Some (KeyError (index_name idx)), S1)
              | Some entries \<Rightarrow>
                  (None, S1\<lparr>overview_aggs :=
                     (overview_aggs S1)(index_name idx \<mapsto> entries(label \<mapsto> ov))\<rparr>)))"
      unfolding res_def iv_open_val_def S1_def iv_key_def bucket_overview_def Inr sum.case Let_def
      by (rule refl)
    have k1: "keeps_baselines S S1" unfolding S1_def by (rule seed_iv_key_keeps)
    have c1: "all_consistent S1 = all_consistent S" unfolding S1_def by (rule seed_iv_key_consistent)
    show ?thesis
    proof (cases res)
      case (Inl e)
      then have "e = AttributeError"
        unfolding res_def bind_err_Inl
        by (auto simp: iv_day_change_of_not_Inl dest: make_overview_Inl)
      with Inl k1 c1 show ?thesis by (simp add: bo)
    next
      case (Inr ov)
      then obtain iv_chg where chg: "iv_day_change_of iv_open_val iv_avg = Inr iv_chg"
        and mo: "make_overview (today C) target ce_q pe_q iv_avg iv_open_val iv_chg = Inr ov"
        unfolding res_def bind_err_Inr by blast
      have ovc: "overview_consistent ov" by (rule make_overview_consistent[OF mo chg])
      show ?thesis
      proof (cases "overview_aggs S1 (index_name idx)")
        case None
        with Inr k1 c1 show ?thesis by (simp add: bo)
      next
        case (Some entries)
        let ?S2 = "S1\<lparr>overview_aggs :=
                     (overview_aggs S1)(index_name idx \<mapsto> entries(label \<mapsto> ov))\<rparr>"
        have r: "bucket_overview C idx label target ce_q pe_q S = (None, ?S2)"
          by (simp add: bo Inr Some)
        have k2: "keeps_baselines S ?S2" using k1 by (simp add: keeps_baselines_def)
        have c2: "all_consistent S1 \<Longrightarrow> all_consistent ?S2"
          using ovc Some unfolding all_consistent_def
          by (auto split: if_splits)
        from k2 c2 c1 show ?thesis unfolding r by simp
      qed
    qed
  qed
qed

lemma write_snapshot_frame:
  "oi_open_map (snd (write_snapshot C r S)) = oi_open_map S
   \<and> iv_open_map (snd (write_snapshot C r S)) = iv_open_map S
   \<and> legs (snd (write_snapshot C r S)) = legs S
   \<and> overview_aggs (snd (write_snapshot C r S)) = overview_aggs S
   \<and> fst (write_snapshot C r S) \<noteq> Some ZeroDivisionError"
  by (simp add: write_snapshot_def Let_def)

lemma write_atm_leg_frame:
  "oi_open_map (write_atm_leg C r S) = oi_open_map S
   \<and> iv_open_map (write_atm_leg C r S) = iv_open_map S
   \<and> legs (write_atm_leg C r S) = legs S
   \<and> overview_aggs (write_atm_leg C r S) = overview_aggs S"
  by (simp add: write_atm_leg_def Let_def)

lemma make_leg_consistent:
  assumes "make_leg C idx label target atm sd oo q = Inr r"
  shows "leg_consistent r"
  using make_leg_fields[OF assms] by (simp add: leg_consistent_def)

lemma sound_process_leg: "sound_stmt (process_leg C idx label target atm p)"
  unfolding sound_stmt_def
proof (intro allI)
  fix S
  obtain sd tkn q where p: "p = (sd, tkn, q)" by (cases p)
  show "keeps_baselines S (snd (process_leg C idx label target atm p S))
      \<and> (all_consistent S \<longrightarrow> all_consistent (snd (process_leg C idx label target atm p S)))
      \<and> fst (process_leg C idx label target atm p S) \<noteq> Some ZeroDivisionError"
  proof (cases "make_leg C idx label target atm sd (map_get (oi_open_map S) tkn) q")
    case (Inl e)
    with make_leg_Inl[OF Inl] show ?thesis
      by (simp add: process_leg_def p keeps_baselines_refl)
  next
    case (Inr r)
    let ?S1 = "S\<lparr>legs := legs S @ [r]\<rparr>"
    obtain e S2 where ws: "write_snapshot C r ?S1 = (e, S2)" by (cases "write_snapshot C r ?S1")
    from write_snapshot_frame[of C r ?S1] ws
    have fr: "oi_open_map S2 = oi_open_map S" "iv_open_map S2 = iv_open_map S"
      "legs S2 = legs S @ [r]" "overview_aggs S2 = overview_aggs S"
      "e \<noteq> Some ZeroDivisionError" by simp_all
    let ?S3 = "if influx_writer C then write_atm_leg C r S2 else S2"
    have fr3: "oi_open_map ?S3 = oi_open_map S" "iv_open_map ?S3 = iv_open_map S"
      "legs ?S3 = legs S @ [r]" "overview_aggs ?S3 = overview_aggs S"
      using fr write_atm_leg_frame[of C r S2] by simp_all
    have pl: "process_leg C idx label target atm p S =
        (case e of None \<Rightarrow> (None, ?S3) | Some x \<Rightarrow> (Some x, S2))"
      by (simp add: process_leg_def p Inr then_do_def ws)
    have lc: "leg_consistent r" by (rule make_leg_consistent[OF Inr])
    show ?thesis
    proof (cases e)
      case None
      then have r1: "process_leg C idx label target atm p S = (None, ?S3)" by (simp add: pl)
      show ?thesis unfolding r1 using fr3 lc
        by (simp add: keeps_baselines_def all_consistent_def)
    next
      case (Some x)
      then have r1: "process_leg C idx label target atm p S = (Some x, S2)" by (simp add: pl)
      show ?thesis unfolding r1 using fr lc Some
        by (simp add: keeps_baselines_def all_consistent_def)
    qed
  qed
qed


lemma safe_call_loop_iteration_error:
  assumes "e \<noteq> ValueError"
  shows "fst (safe_call_loop B m a attempt w) \<noteq> Inl e
   \<or> (attempt + 1 \<le> max_retries \<and>
       (\<exists>w2. safe_call_loop B m a attempt w = safe_call_loop B m a (attempt + 1) w2))"
proof -
  note eq = safe_call_loop.simps[of B m a attempt w]
  show ?thesis
  proof (cases "kite_api B (calls w) m a")
    case (Returns v)
    then show ?thesis by (simp add: eq Let_def)
  next
    case (RaisesKite ex)
    then show ?thesis using assms
      by (auto simp add: eq Let_def time_sleep_def)
  next
    case (RaisesHTTP resp)
    then show ?thesis using assms
      by (auto simp add: eq Let_def time_sleep_def split: option.splits)
  next
    case RaisesOther
    then show ?thesis by (simp add: eq Let_def)
  qed
qed

lemma safe_call_loop_raises_ValueError_only:
  assumes "e \<noteq> ValueError"
  shows "max_retries - attempt \<le> k \<Longrightarrow> fst (safe_call_loop B m a attempt w) \<noteq> Inl e"
proof (induction k arbitrary: attempt w)
  case 0
  from safe_call_loop_iteration_error[OF assms, of B m a attempt w] 0 show ?case by auto
next
  case (Suc k)
  from safe_call_loop_iteration_error[OF assms, of B m a attempt w] show ?case
  proof
    assume "fst (safe_call_loop B m a attempt w) \<noteq> Inl e" then show ?thesis .
  next
    assume "attempt + 1 \<le> max_retries \<and>
       (\<exists>w2. safe_call_loop B m a attempt w = safe_call_loop B m a (attempt + 1) w2)"
    then obtain w2 where le: "attempt + 1 \<le> max_retries"
      and h: "safe_call_loop B m a attempt w = safe_call_loop B m a (attempt + 1) w2" by blast
    have "max_retries - (attempt + 1) \<le> k" using Suc.prems le by arith
    from Suc.IH[OF this, of w2] show ?thesis unfolding h .
  qed
qed

lemma safe_call_raises_ValueError_only:
  assumes "fst (safe_call B m a w) = Inl e"
  shows "e = ValueError"
proof (rule ccontr)
  assume ne: "e \<noteq> ValueError"
  have "max_retries - 0 \<le> max_retries" by simp
  from safe_call_loop_raises_ValueError_only[OF ne this]
  have "fst (safe_call_loop B m a 0 w) \<noteq> Inl e" .
  with assms show False by (simp add: safe_call_def)
qed

lemma bucket_quotes_no_zero_division:
  "fst (bucket_quotes C ce pe w) \<noteq> Inl ZeroDivisionError"
proof -
  obtain r w1 where sc: "safe_call (kite C) ''quote'' [ce, pe] w = (r, w1)"
    by (cases "safe_call (kite C) ''quote'' [ce, pe] w")
  have r: "r \<noteq> Inl ZeroDivisionError"
    using safe_call_raises_ValueError_only[of "kite C" "''quote''" "[ce, pe]" w] sc
    by auto
  show ?thesis
    using r by (auto simp: bucket_quotes_def sc bind_err_Inl Let_def dest: qget_default_Inl)
qed

lemma spot_price_no_zero_division:
  "fst (spot_price C idx w) \<noteq> Inl ZeroDivisionError"
proof -
  obtain r w1 where sc: "safe_call (kite C) ''quote'' [SPOT_SYMBOL idx] w = (r, w1)"
    by (cases "safe_call (kite C) ''quote'' [SPOT_SYMBOL idx] w")
  have r: "r \<noteq> Inl ZeroDivisionError"
    using safe_call_raises_ValueError_only[of "kite C" "''quote''" "[SPOT_SYMBOL idx]" w] sc
    by auto
  show ?thesis
    using r by (auto simp: spot_price_def sc bind_err_Inl dest: qget_default_Inl qget_Inl)
qed

lemma fx_update_keeps: "keeps_baselines S (S\<lparr>fx := w\<rparr>)"
  by (simp add: keeps_baselines_def)

lemma fx_update_consistent: "all_consistent (S\<lparr>fx := w\<rparr>) = all_consistent S"
  by (simp add: all_consistent_def)

lemma sound_stmt_after:
  assumes f: "sound_stmt f" and k: "keeps_baselines S S0"
    and c: "all_consistent S \<Longrightarrow> all_consistent S0"
  shows "keeps_baselines S (snd (f S0))
      \<and> (all_consistent S \<longrightarrow> all_consistent (snd (f S0)))
      \<and> fst (f S0) \<noteq> Some ZeroDivisionError"
  using sound_stmtD[OF f, of S0] k c by (auto intro: keeps_baselines_trans)

lemma sound_process_bucket: "sound_stmt (process_bucket C idx atm pool p)"
  unfolding sound_stmt_def
proof (intro allI)
  fix S
  let ?goal = "\<lambda>res. keeps_baselines S (snd res)
      \<and> (all_consistent S \<longrightarrow> all_consistent (snd res))
      \<and> fst res \<noteq> Some ZeroDivisionError"
  have skip: "?goal (None, S)" by (simp add: keeps_baselines_refl)
  obtain label xo where p: "p = (label, xo)" by (cases p)
  show "?goal (process_bucket C idx atm pool p S)"
  proof (cases xo)
    case None
    with skip show ?thesis by (simp add: process_bucket_def p)
  next
    case (Some target)
    obtain ce pe where gt: "get_tokens pool idx atm target = (ce, pe)"
      by (cases "get_tokens pool idx atm target")
    show ?thesis
    proof (cases "\<exists>c q. ce = Some c \<and> pe = Some q \<and> c \<noteq> [] \<and> q \<noteq> []")
      case False
      then have "process_bucket C idx atm pool p S = (None, S)"
        by (cases ce; cases pe) (auto simp: process_bucket_def p Some gt)
      with skip show ?thesis by simp
    next
      case True
      then obtain c q where t: "ce = Some c" "pe = Some q" "c \<noteq> []" "q \<noteq> []" by blast
      obtain r w where bq: "bucket_quotes C c q (fx S) = (r, w)"
        by (cases "bucket_quotes C c q (fx S)")
      show ?thesis
      proof (cases r)
        case (Inl e)
        then have pb: "process_bucket C idx atm pool p S = (Some e, S\<lparr>fx := w\<rparr>)"
          by (simp add: process_bucket_def p Some gt t bq)
        from bucket_quotes_no_zero_division[of C c q "fx S"] bq Inl
        have "e \<noteq> ZeroDivisionError" by auto
        then show ?thesis unfolding pb
          by (simp add: fx_update_keeps fx_update_consistent)
      next
        case (Inr qs)
        obtain ce_q pe_q where qs: "qs = (ce_q, pe_q)" by (cases qs)
        let ?F = "then_do (for_each seed_maps [(c, ce_q), (q, pe_q)])
                        (then_do (bucket_overview C idx label target ce_q pe_q)
                           (for_each (process_leg C idx label target atm)
                              [(''CALL'', c, ce_q), (''PUT'', q, pe_q)]))"
        have pb: "process_bucket C idx atm pool p S = ?F (S\<lparr>fx := w\<rparr>)"
          by (simp add: process_bucket_def p Some gt t bq Inr qs)
        have sF: "sound_stmt ?F"
          by (intro sound_then_do sound_for_each sound_seed_maps sound_bucket_overview
              sound_process_leg)
        show ?thesis unfolding pb
          by (rule sound_stmt_after[OF sF fx_update_keeps]) (simp add: fx_update_consistent)
      qed
    qed
  qed
qed


lemma atm_strike_no_zero_division: "atm_strike spot (STEP idx) \<noteq> Inl ZeroDivisionError"
  by (cases idx) (auto simp: atm_strike_def bind_err_Inl py_truediv_def)

lemma bucket_pairs_no_zero_division: "bucket_pairs idx exps \<noteq> Inl ZeroDivisionError"
  by (simp add: bucket_pairs_def split: option.splits)

lemma sound_collect_index: "sound_stmt (collect_index C idx)"
  unfolding sound_stmt_def
proof (intro allI)
  fix S
  let ?goal = "\<lambda>res. keeps_baselines S (snd res)
      \<and> (all_consistent S \<longrightarrow> all_consistent (snd res))
      \<and> fst res \<noteq> Some ZeroDivisionError"
  obtain r w where sp: "spot_price C idx (fx S) = (r, w)" by (cases "spot_price C idx (fx S)")
  let ?S1 = "S\<lparr>fx := w\<rparr>"
  have base: "\<And>e. e \<noteq> Some ZeroDivisionError \<Longrightarrow> ?goal (e, ?S1)"
    by (simp add: fx_update_keeps fx_update_consistent)
  show "?goal (collect_index C idx S)"
  proof (cases r)
    case (Inl e)
    from spot_price_no_zero_division[of C idx "fx S"] sp Inl have "e \<noteq> ZeroDivisionError" by auto
    moreover have "collect_index C idx S = (Some e, ?S1)" by (simp add: collect_index_def sp Inl)
    ultimately show ?thesis using base[of "Some e"] by simp
  next
    case (Inr spot)
    show ?thesis
    proof (cases "spot = PNone")
      case True
      then have "collect_index C idx S = (None, ?S1)" by (simp add: collect_index_def sp Inr Let_def)
      then show ?thesis using base[of None] by simp
    next
      case False
      show ?thesis
      proof (cases "atm_strike spot (STEP idx)")
        case (Inl e)
        with atm_strike_no_zero_division[of spot idx] have "e \<noteq> ZeroDivisionError" by auto
        moreover have "collect_index C idx S = (Some e, ?S1)"
          using False by (simp add: collect_index_def sp Inr Inl Let_def)
        ultimately show ?thesis using base[of "Some e"] by simp
      next
        case atm: (Inr atm)
        define exps where "exps = (if use_dynamic_expiries C then discover_expiries_for_idx C idx atm else [])"
        have ex: "(if use_dynamic_expiries C then discover_expiries_for_idx C idx atm else []) = exps"
          by (simp add: exps_def)
        show ?thesis
        proof (cases "bucket_pairs idx exps")
          case (Inl e)
          with bucket_pairs_no_zero_division[of idx exps] have "e \<noteq> ZeroDivisionError" by auto
          moreover have "collect_index C idx S = (Some e, ?S1)"
            using False by (simp add: collect_index_def sp Inr atm Inl Let_def ex)
          ultimately show ?thesis using base[of "Some e"] by simp
        next
          case pairs: (Inr pairs)
          let ?S2 = "?S1\<lparr>overview_aggs := (overview_aggs ?S1)(index_name idx \<mapsto> Map.empty)\<rparr>"
          have ci: "collect_index C idx S
              = for_each (process_bucket C idx atm (pool_for_idx C idx)) pairs ?S2"
            using False by (simp add: collect_index_def sp Inr atm pairs Let_def ex)
          have k: "keeps_baselines S ?S2" by (simp add: keeps_baselines_def)
          have c: "all_consistent S \<Longrightarrow> all_consistent ?S2"
            by (auto simp: all_consistent_def split: if_splits)
          show ?thesis unfolding ci
            by (rule sound_stmt_after[OF sound_for_each[OF sound_process_bucket] k c])
        qed
      qed
    qed
  qed
qed

lemma collect_sound:
  "keeps_baselines S (snd (collect C S))
   \<and> all_consistent (snd (collect C S))
   \<and> fst (collect C S) \<noteq> Inl ZeroDivisionError
   \<and> (\<forall>ls ovs. fst (collect C S) = Inr (ls, ovs) \<longrightarrow>
         ls = legs (snd (collect C S)) \<and> ovs = overview_aggs (snd (collect C S)))"
proof -
  let ?S0 = "S\<lparr>legs := [], overview_aggs := Map.empty\<rparr>"
  obtain e S1 where fe: "for_each (collect_index C) [NIFTY, SENSEX, BANKNIFTY] ?S0 = (e, S1)"
    by (cases "for_each (collect_index C) [NIFTY, SENSEX, BANKNIFTY] ?S0")
  have k0: "keeps_baselines S ?S0" by (simp add: keeps_baselines_def)
  have c0: "all_consistent ?S0" by (simp add: all_consistent_def)
  have sfe: "sound_stmt (for_each (collect_index C) [NIFTY, SENSEX, BANKNIFTY])"
    by (rule sound_for_each) (rule sound_collect_index)
  from sound_stmtD[OF sfe, of ?S0] fe c0
  have s: "keeps_baselines ?S0 S1" "all_consistent S1" "e \<noteq> Some ZeroDivisionError"
    by simp_all
  have k: "keeps_baselines S S1" by (rule keeps_baselines_trans[OF k0 s(1)])
  have co: "collect C S = (case e of Some x \<Rightarrow> (Inl x, S1) | None \<Rightarrow> (Inr (legs S1, overview_aggs S1), S1))"
    unfolding collect_def fe by (cases e) simp_all
  show ?thesis
    using k s(2,3) unfolding co by (cases e) simp_all
qed

section \<open>One cycle, evaluated\<close>

lemma nifty_safe_call:
  "safe_call (kite (nifty_collector_on fw)) m a w
     = (Inr nifty_quotes, w\<lparr>calls := Suc (calls w)\<rparr>)"
  unfolding safe_call_def
  by (rule safe_call_loop_returns) (simp add: nifty_collector_on_def nifty_collector_def)

lemma nifty_spot_price:
  "spot_price (nifty_collector_on fw) NIFTY w = (Inr (PFloat 24821), w\<lparr>calls := Suc (calls w)\<rparr>)"
  "spot_price (nifty_collector_on fw) SENSEX w = (Inr PNone, w\<lparr>calls := Suc (calls w)\<rparr>)"
  "spot_price (nifty_collector_on fw) BANKNIFTY w = (Inr PNone, w\<lparr>calls := Suc (calls w)\<rparr>)"
  by (simp_all add: spot_price_def nifty_safe_call nifty_quotes_def qget_default_def qget_def
      bind_err_def dget_def dget_default_def)

lemma nifty_atm_strike: "atm_strike (PFloat 24821) (STEP NIFTY) = Inr 24800"
  by code_simp

lemma nifty_fields:
  "use_dynamic_expiries (nifty_collector_on fw)"
  "influx_writer (nifty_collector_on fw)"
  "file_write_raises (nifty_collector_on fw) = fw"
  "influx_raises (nifty_collector_on fw) = (\<lambda>n. False)"
  "pool_for_idx (nifty_collector_on fw) NIFTY = [nifty_call, nifty_put]"
  "discover_expiries_for_idx (nifty_collector_on fw) NIFTY atm = [(''weekly'', []), (''monthly'', [nov26])]"
  "today (nifty_collector_on fw) = \<lparr>year = 2026, month = 11, day = 4\<rparr>"
  "rounded_now (nifty_collector_on fw) = ''2026-11-04T10:15:00+05:30''"
  by (simp_all add: nifty_collector_on_def nifty_collector_def pool_for_idx_def
      discover_expiries_for_idx_def List.map_filter_simps)

lemma nifty_bucket_pairs:
  "bucket_pairs NIFTY [(''weekly'', []), (''monthly'', [nov26])]
   = Inr [(''this_week'', None), (''next_week'', None), (''this_month'', Some nov26),
          (''next_month'', None)]"
  by code_simp

lemma nifty_get_tokens:
  "get_tokens [nifty_call, nifty_put] NIFTY 24800 nov26 = (Some ''101'', Some ''102'')"
  by code_simp

lemma nifty_bucket_quotes:
  "bucket_quotes (nifty_collector_on fw) ''101'' ''102'' w
     = (Inr (call_quote, put_quote), w\<lparr>calls := Suc (calls w)\<rparr>)"
  by (simp add: bucket_quotes_def nifty_safe_call nifty_quotes_def qget_default_def bind_err_def
      dget_default_def)

lemma nifty_iv_average: "iv_average call_quote put_quote = Inr (PFloat 13)"
  by code_simp

lemma nifty_iv_day_change: "iv_day_change_of (PFloat 15) (PFloat 13) = Inr (PFloat 2)"
  by code_simp

lemma nifty_make_overview:
  "make_overview \<lparr>year = 2026, month = 11, day = 4\<rparr> nov26 call_quote put_quote
     (PFloat 13) (PFloat 15) (PFloat 2) = Inr this_month_overview"
  by code_simp

lemma nifty_make_leg_aux:
  "make_leg nifty_collector NIFTY ''this_month'' nov26 24800 ''CALL'' (PInt 1100) call_quote
     = Inr call_leg"
  "make_leg nifty_collector NIFTY ''this_month'' nov26 24800 ''PUT'' (PInt 1200) put_quote
     = Inr put_leg"
  by code_simp+


lemma nifty_make_leg:
  "make_leg (nifty_collector_on fw) NIFTY ''this_month'' nov26 24800 ''CALL'' (PInt 1100) call_quote
     = Inr call_leg"
  "make_leg (nifty_collector_on fw) NIFTY ''this_month'' nov26 24800 ''PUT'' (PInt 1200) put_quote
     = Inr put_leg"
  using nifty_make_leg_aux
  by (simp_all add: make_leg_def nifty_collector_on_def)

lemma nifty_qget:
  "qget call_quote ''oi'' = Inr (PInt 1000)" "qget call_quote ''iv'' = Inr (PFloat 12)"
  "qget put_quote ''oi'' = Inr (PInt 1200)" "qget put_quote ''iv'' = Inr (PFloat 14)"
  by code_simp+

lemma disk_full_bucket:
  "process_bucket (nifty_collector_on (\<lambda>n. True)) NIFTY 24800 [nifty_call, nifty_put]
     (''this_month'', Some nov26) \<lparr>fx = w, oi_open_map = [''101'' \<mapsto> PInt 1100], iv_open_map = [''101'' \<mapsto> PFloat 16, ''NIFTY_this_month_iv_open'' \<mapsto> PFloat 15], files = [], file_writes = 0, points = [], influx_writes = 0, legs = [], overview_aggs = [''NIFTY'' \<mapsto> Map.empty]\<rparr>
   = (Some OSError, \<lparr>fx = w\<lparr>calls := Suc (calls w)\<rparr>, oi_open_map = [''101'' \<mapsto> PInt 1100, ''102'' \<mapsto> PInt 1200], iv_open_map = [''101'' \<mapsto> PFloat 16, ''NIFTY_this_month_iv_open'' \<mapsto> PFloat 15, ''102'' \<mapsto> PFloat 14], files = [], file_writes = 1, points = [], influx_writes = 0, legs = [call_leg], overview_aggs = [''NIFTY'' \<mapsto> [''this_month'' \<mapsto> this_month_overview]]\<rparr>)"
  by (simp add: process_bucket_def nifty_get_tokens nifty_bucket_quotes then_do_def
      seed_maps_def seed_oi_def seed_iv_def nifty_qget bind_err_def
      bucket_overview_def nifty_iv_average seed_iv_key_def map_get_def Let_def
      nifty_fields nifty_iv_day_change nifty_make_overview
      process_leg_def nifty_make_leg write_snapshot_def)


lemma process_bucket_skip: "process_bucket C idx atm pool (label, None) S = (None, S)"
  by (simp add: process_bucket_def)

lemma leg_points_not_empty: "point_fields (leg_point r) \<noteq> []"
  by (simp add: leg_point_def filter_empty_conv fint_def)

lemma nifty_bucket:
  "process_bucket (nifty_collector_on (\<lambda>n. False)) NIFTY 24800 [nifty_call, nifty_put]
     (''this_month'', Some nov26) \<lparr>fx = w, oi_open_map = [''101'' \<mapsto> PInt 1100], iv_open_map = [''101'' \<mapsto> PFloat 16, ''NIFTY_this_month_iv_open'' \<mapsto> PFloat 15], files = [], file_writes = 0, points = [], influx_writes = 0, legs = [], overview_aggs = [''NIFTY'' \<mapsto> Map.empty]\<rparr>
   = (None, \<lparr>fx = w\<lparr>calls := Suc (calls w)\<rparr>, oi_open_map = [''101'' \<mapsto> PInt 1100, ''102'' \<mapsto> PInt 1200], iv_open_map = [''101'' \<mapsto> PFloat 16, ''NIFTY_this_month_iv_open'' \<mapsto> PFloat 15, ''102'' \<mapsto> PFloat 14], files = [(snapshot_path (nifty_collector_on (\<lambda>n. False)) call_leg, call_leg), (snapshot_path (nifty_collector_on (\<lambda>n. False)) put_leg, put_leg)], file_writes = 2, points = [leg_point call_leg, leg_point put_leg], influx_writes = 2, legs = [call_leg, put_leg], overview_aggs = [''NIFTY'' \<mapsto> [''this_month'' \<mapsto> this_month_overview]]\<rparr>)"
  by (simp add: process_bucket_def nifty_get_tokens nifty_bucket_quotes then_do_def
      seed_maps_def seed_oi_def seed_iv_def nifty_qget bind_err_def
      bucket_overview_def nifty_iv_average seed_iv_key_def map_get_def Let_def
      nifty_fields nifty_iv_day_change nifty_make_overview
      process_leg_def nifty_make_leg write_snapshot_def write_atm_leg_def leg_points_not_empty)

lemma nifty_atm_strike_50: "atm_strike (PFloat 24821) 50 = Inr 24800"
  by code_simp

lemma disk_full_collect:
  "collect disk_full_collector seeded
   = (Inl OSError, \<lparr>fx = \<lparr>calls = 2, refreshes = 0, sleeps = []\<rparr>, oi_open_map = [''101'' \<mapsto> PInt 1100, ''102'' \<mapsto> PInt 1200], iv_open_map = [''101'' \<mapsto> PFloat 16, ''NIFTY_this_month_iv_open'' \<mapsto> PFloat 15, ''102'' \<mapsto> PFloat 14], files = [], file_writes = 1, points = [], influx_writes = 0, legs = [call_leg], overview_aggs = [''NIFTY'' \<mapsto> [''this_month'' \<mapsto> this_month_overview]]\<rparr>)"
  by (simp add: collect_def collect_index_def disk_full_collector_def seeded_def fresh_def idle_def
      nifty_spot_price nifty_atm_strike_50 nifty_fields nifty_bucket_pairs process_bucket_skip
      disk_full_bucket)

lemma nifty_collector_on_False: "nifty_collector = nifty_collector_on (\<lambda>n. False)"
  by (simp add: nifty_collector_on_def nifty_collector_def)

lemma nifty_collect:
  "collect nifty_collector seeded
   = (Inr ([call_leg, put_leg], [''NIFTY'' \<mapsto> [''this_month'' \<mapsto> this_month_overview]]), \<lparr>fx = \<lparr>calls = 4, refreshes = 0, sleeps = []\<rparr>, oi_open_map = [''101'' \<mapsto> PInt 1100, ''102'' \<mapsto> PInt 1200], iv_open_map = [''101'' \<mapsto> PFloat 16, ''NIFTY_this_month_iv_open'' \<mapsto> PFloat 15, ''102'' \<mapsto> PFloat 14], files = [(snapshot_path (nifty_collector_on (\<lambda>n. False)) call_leg, call_leg), (snapshot_path (nifty_collector_on (\<lambda>n. False)) put_leg, put_leg)], file_writes = 2, points = [leg_point call_leg, leg_point put_leg], influx_writes = 2, legs = [call_leg, put_leg], overview_aggs = [''NIFTY'' \<mapsto> [''this_month'' \<mapsto> this_month_overview]]\<rparr>)"
  unfolding nifty_collector_on_False
  by (simp add: collect_def collect_index_def seeded_def fresh_def idle_def
      nifty_spot_price nifty_atm_strike_50 nifty_fields nifty_bucket_pairs process_bucket_skip
      nifty_bucket)

section \<open>Baselines, derived fields and sinks\<close>





lemma emitted_legs_consistent:
  "r \<in> set (legs (snd (collect C S))) \<Longrightarrow> leg_consistent r"
  using collect_sound[of S C] by (simp add: all_consistent_def list_all_iff)

lemma emitted_overviews_consistent:
  "overview_aggs (snd (collect C S)) i = Some m \<Longrightarrow> m l = Some ov \<Longrightarrow> overview_consistent ov"
  using collect_sound[of S C] unfolding all_consistent_def by blast



text \<open>
  C5. No cycle raises \<open>ZeroDivisionError\<close>. In every leg a cycle emits,
  \<open>net_change_percent\<close> and \<open>day_change_percent\<close> are the percentage of the change of
  the last price against the OHLC close and open when both operands are numbers and
  the divisor is not zero, and null otherwise. In every overview entry a cycle emits,
  the put/call ratio is put open interest divided by call open interest when both are
  \<open>int\<close> (the test of the code) and the call open interest is not zero, and null
  otherwise. Call OI 100 and put OI 150 give 1.5, call OI 0 gives null, and last price
  100 with OHLC close 0 gives a null \<open>net_change_percent\<close>.
\<close>

theorem ratios_are_null_safe:
  "fst (collect C S) \<noteq> Inl ZeroDivisionError
   \<and> (\<forall>r \<in> set (legs (snd (collect C S))).
         net_change_percent r =
           (if is_num (last_price r) \<and> is_num (ohlc_close r) \<and> num_of (ohlc_close r) \<noteq> 0
            then PFloat ((num_of (last_price r) - num_of (ohlc_close r))
                           / num_of (ohlc_close r) * 100)
            else PNone)
         \<and> day_change_percent r =
           (if is_num (last_price r) \<and> is_num (ohlc_open r) \<and> num_of (ohlc_open r) \<noteq> 0
            then PFloat ((num_of (last_price r) - num_of (ohlc_open r))
                           / num_of (ohlc_open r) * 100)
            else PNone))
   \<and> (\<forall>i m l ov. overview_aggs (snd (collect C S)) i = Some m \<and> m l = Some ov \<longrightarrow>
         PCR ov = (case (OI_CALL ov, OI_PUT ov) of
                     (PInt c, PInt p) \<Rightarrow> if c \<noteq> 0 then PFloat (of_int p / of_int c) else PNone
                   | _ \<Rightarrow> PNone))
   \<and> put_call_ratio (PDict [(''oi'', PInt 100)]) (PDict [(''oi'', PInt 150)])
       = Inr (PFloat (3 / 2))
   \<and> put_call_ratio (PDict [(''oi'', PInt 0)]) (PDict [(''oi'', PInt 150)]) = Inr PNone
   \<and> change_percent_of (PInt 100) (PInt 0) = Inr PNone"
proof -
  have legs_ok: "\<forall>r \<in> set (legs (snd (collect C S))).
         net_change_percent r =
           (if is_num (last_price r) \<and> is_num (ohlc_close r) \<and> num_of (ohlc_close r) \<noteq> 0
            then PFloat ((num_of (last_price r) - num_of (ohlc_close r))
                           / num_of (ohlc_close r) * 100)
            else PNone)
         \<and> day_change_percent r =
           (if is_num (last_price r) \<and> is_num (ohlc_open r) \<and> num_of (ohlc_open r) \<noteq> 0
            then PFloat ((num_of (last_price r) - num_of (ohlc_open r))
                           / num_of (ohlc_open r) * 100)
            else PNone)"
  proof
    fix r assume "r \<in> set (legs (snd (collect C S)))"
    then have "leg_consistent r" by (rule emitted_legs_consistent)
    then have "Inr (net_change_percent r) = change_percent_of (last_price r) (ohlc_close r)"
      and "Inr (day_change_percent r) = change_percent_of (last_price r) (ohlc_open r)"
      by (simp_all add: leg_consistent_def)
    then show "net_change_percent r =
           (if is_num (last_price r) \<and> is_num (ohlc_close r) \<and> num_of (ohlc_close r) \<noteq> 0
            then PFloat ((num_of (last_price r) - num_of (ohlc_close r))
                           / num_of (ohlc_close r) * 100)
            else PNone)
         \<and> day_change_percent r =
           (if is_num (last_price r) \<and> is_num (ohlc_open r) \<and> num_of (ohlc_open r) \<noteq> 0
            then PFloat ((num_of (last_price r) - num_of (ohlc_open r))
                           / num_of (ohlc_open r) * 100)
            else PNone)"
      unfolding change_percent_of_value by simp
  qed
  have ovs_ok: "\<forall>i m l ov. overview_aggs (snd (collect C S)) i = Some m \<and> m l = Some ov \<longrightarrow>
         PCR ov = (case (OI_CALL ov, OI_PUT ov) of
                     (PInt c, PInt p) \<Rightarrow> if c \<noteq> 0 then PFloat (of_int p / of_int c) else PNone
                   | _ \<Rightarrow> PNone)"
    using emitted_overviews_consistent[of C S] unfolding overview_consistent_def by blast
  have no_zde: "fst (collect C S) \<noteq> Inl ZeroDivisionError"
    using collect_sound[of S C] by blast
  have ex1: "put_call_ratio (PDict [(''oi'', PInt 100)]) (PDict [(''oi'', PInt 150)])
       = Inr (PFloat (3 / 2))"
    by (simp add: put_call_ratio_value dget_def)
  have ex2: "put_call_ratio (PDict [(''oi'', PInt 0)]) (PDict [(''oi'', PInt 150)]) = Inr PNone"
    by (simp add: put_call_ratio_value dget_def)
  have ex3: "change_percent_of (PInt 100) (PInt 0) = Inr PNone"
    by (simp add: change_percent_of_value)
  from no_zde legs_ok ovs_ok ex1 ex2 ex3 show ?thesis by blast
qed

lemma nifty_cycle_legs: "legs (snd (collect nifty_collector seeded)) = [call_leg, put_leg]"
  by (simp add: nifty_collect)

lemma nifty_cycle_overview:
  "overview_aggs (snd (collect nifty_collector seeded)) ''NIFTY''
     = Some [''this_month'' \<mapsto> this_month_overview]"
  by (simp add: nifty_collect)

text \<open>
  Witness: the cycle of \<open>nifty_collector\<close> emits the put leg with last price 95.25 and
  OHLC close 0, whose \<open>net_change_percent\<close> is null, the call leg with last price 120.5
  and OHLC close 110, whose \<open>net_change_percent\<close> is 105/11, and the overview entry with
  call OI 1000 and put OI 1200, whose put/call ratio is 1.2.
\<close>

theorem ratios_are_null_safe_witness:
  "put_leg \<in> set (legs (snd (collect nifty_collector seeded)))
   \<and> last_price put_leg = PFloat (381 / 4) \<and> ohlc_close put_leg = PInt 0
   \<and> net_change_percent put_leg = PNone
   \<and> call_leg \<in> set (legs (snd (collect nifty_collector seeded)))
   \<and> last_price call_leg = PFloat (241 / 2) \<and> ohlc_close call_leg = PInt 110
   \<and> net_change_percent call_leg = PFloat (105 / 11)
   \<and> overview_aggs (snd (collect nifty_collector seeded)) ''NIFTY''
        = Some [''this_month'' \<mapsto> this_month_overview]
   \<and> OI_CALL this_month_overview = PInt 1000 \<and> OI_PUT this_month_overview = PInt 1200
   \<and> PCR this_month_overview = PFloat (6 / 5)"
proof -
  note t = ratios_are_null_safe[of nifty_collector seeded]
  have m1: "put_leg \<in> set (legs (snd (collect nifty_collector seeded)))"
    and m2: "call_leg \<in> set (legs (snd (collect nifty_collector seeded)))"
    by (simp_all add: nifty_cycle_legs)
  from t m1 have "net_change_percent put_leg =
           (if is_num (last_price put_leg) \<and> is_num (ohlc_close put_leg)
               \<and> num_of (ohlc_close put_leg) \<noteq> 0
            then PFloat ((num_of (last_price put_leg) - num_of (ohlc_close put_leg))
                           / num_of (ohlc_close put_leg) * 100)
            else PNone)"
    by blast
  then have p: "net_change_percent put_leg = PNone"
    by (simp add: put_leg_def)
  from t m2 have "net_change_percent call_leg =
           (if is_num (last_price call_leg) \<and> is_num (ohlc_close call_leg)
               \<and> num_of (ohlc_close call_leg) \<noteq> 0
            then PFloat ((num_of (last_price call_leg) - num_of (ohlc_close call_leg))
                           / num_of (ohlc_close call_leg) * 100)
            else PNone)"
    by blast
  then have c: "net_change_percent call_leg = PFloat (105 / 11)"
    by (simp add: call_leg_def)
  have "[''this_month'' \<mapsto> this_month_overview] ''this_month'' = Some this_month_overview"
    by simp
  with t nifty_cycle_overview
  have "PCR this_month_overview =
      (case (OI_CALL this_month_overview, OI_PUT this_month_overview) of
         (PInt c, PInt p) \<Rightarrow> if c \<noteq> 0 then PFloat (of_int p / of_int c) else PNone
       | _ \<Rightarrow> PNone)"
    by blast
  then have r: "PCR this_month_overview = PFloat (6 / 5)"
    by (simp add: this_month_overview_def)
  from m1 m2 p c r nifty_cycle_overview show ?thesis
    by (simp add: put_leg_def call_leg_def this_month_overview_def)
qed

text \<open>
  C6. In every leg a cycle emits, \<open>oi_change\<close> is the baseline \<open>oi_open\<close> minus the
  current \<open>oi\<close> when both are \<open>int\<close>, and null otherwise. In every overview entry a
  cycle emits, \<open>iv_day_change\<close> is the baseline \<open>iv_open\<close> minus the current averaged
  \<open>atm_iv\<close> when both are numbers, and null otherwise. The sign is baseline minus
  current in both.
\<close>

theorem drift_is_baseline_minus_current:
  "(\<forall>r \<in> set (legs (snd (collect C S))).
      oi_change r = (case (oi_open r, oi r) of
                       (PInt baseline, PInt current) \<Rightarrow> PInt (baseline - current)
                     | _ \<Rightarrow> PNone))
   \<and> (\<forall>i m l ov. overview_aggs (snd (collect C S)) i = Some m \<and> m l = Some ov \<longrightarrow>
         (if is_num (iv_open ov) \<and> is_num (atm_iv ov)
          then is_num (iv_day_change ov)
               \<and> num_of (iv_day_change ov) = num_of (iv_open ov) - num_of (atm_iv ov)
          else iv_day_change ov = PNone))"
proof -
  have legs_ok: "\<forall>r \<in> set (legs (snd (collect C S))).
      oi_change r = (case (oi_open r, oi r) of
                       (PInt baseline, PInt current) \<Rightarrow> PInt (baseline - current)
                     | _ \<Rightarrow> PNone)"
  proof
    fix r assume "r \<in> set (legs (snd (collect C S)))"
    then have "leg_consistent r" by (rule emitted_legs_consistent)
    then have "Inr (oi_change r) = oi_change_of (oi_open r) (oi r)"
      by (simp add: leg_consistent_def)
    then show "oi_change r = (case (oi_open r, oi r) of
                       (PInt baseline, PInt current) \<Rightarrow> PInt (baseline - current)
                     | _ \<Rightarrow> PNone)"
      unfolding oi_change_of_value by simp
  qed
  have ovs_ok: "\<forall>i m l ov. overview_aggs (snd (collect C S)) i = Some m \<and> m l = Some ov \<longrightarrow>
         (if is_num (iv_open ov) \<and> is_num (atm_iv ov)
          then is_num (iv_day_change ov)
               \<and> num_of (iv_day_change ov) = num_of (iv_open ov) - num_of (atm_iv ov)
          else iv_day_change ov = PNone)"
  proof (intro allI impI)
    fix i m l ov
    assume "overview_aggs (snd (collect C S)) i = Some m \<and> m l = Some ov"
    then have "overview_consistent ov" using emitted_overviews_consistent by blast
    then have e: "Inr (iv_day_change ov) = iv_day_change_of (iv_open ov) (atm_iv ov)"
      by (simp add: overview_consistent_def)
    from iv_day_change_of_total[of "iv_open ov" "atm_iv ov"] e
    show "if is_num (iv_open ov) \<and> is_num (atm_iv ov)
          then is_num (iv_day_change ov)
               \<and> num_of (iv_day_change ov) = num_of (iv_open ov) - num_of (atm_iv ov)
          else iv_day_change ov = PNone"
      by auto
  qed
  from legs_ok ovs_ok show ?thesis by blast
qed

text \<open>
  Witness: the call leg has the baseline 1100 and the current open interest 1000, so
  its \<open>oi_change\<close> is +100 (the value has fallen); the bucket has the baseline 15 and
  the current average 13, so its \<open>iv_day_change\<close> is +2.
\<close>

theorem drift_is_baseline_minus_current_witness:
  "call_leg \<in> set (legs (snd (collect nifty_collector seeded)))
   \<and> oi_open call_leg = PInt 1100 \<and> oi call_leg = PInt 1000
   \<and> oi_change call_leg = PInt 100
   \<and> overview_aggs (snd (collect nifty_collector seeded)) ''NIFTY''
        = Some [''this_month'' \<mapsto> this_month_overview]
   \<and> iv_open this_month_overview = PFloat 15 \<and> atm_iv this_month_overview = PFloat 13
   \<and> num_of (iv_day_change this_month_overview) = 2"
proof -
  note t = drift_is_baseline_minus_current[of nifty_collector seeded]
  have m: "call_leg \<in> set (legs (snd (collect nifty_collector seeded)))"
    by (simp add: nifty_cycle_legs)
  with t have "oi_change call_leg = (case (oi_open call_leg, oi call_leg) of
                       (PInt baseline, PInt current) \<Rightarrow> PInt (baseline - current)
                     | _ \<Rightarrow> PNone)"
    by blast
  then have c: "oi_change call_leg = PInt 100"
    by (simp add: call_leg_def)
  have "[''this_month'' \<mapsto> this_month_overview] ''this_month'' = Some this_month_overview"
    by simp
  with t nifty_cycle_overview
  have "if is_num (iv_open this_month_overview) \<and> is_num (atm_iv this_month_overview)
          then is_num (iv_day_change this_month_overview)
               \<and> num_of (iv_day_change this_month_overview)
                   = num_of (iv_open this_month_overview) - num_of (atm_iv this_month_overview)
          else iv_day_change this_month_overview = PNone"
    by blast
  then have d: "num_of (iv_day_change this_month_overview) = 2"
    by (simp add: this_month_overview_def)
  from m c d nifty_cycle_overview show ?thesis
    by (simp add: call_leg_def this_month_overview_def)
qed

text \<open>
  C10. In every overview entry a cycle emits, the total premium \<open>TP\<close> is a number,
  never null. Line 125 sums the last prices that are numbers, starting from 0: a
  last price that is absent or not a number contributes nothing, so with one last
  price missing \<open>TP\<close> is the other one, and with both missing \<open>TP\<close> is 0.
\<close>

theorem total_premium_is_never_null:
  "(\<forall>i m l ov. overview_aggs (snd (collect C S)) i = Some m \<and> m l = Some ov \<longrightarrow>
       is_num (TP ov) \<and> TP ov \<noteq> PNone)
   \<and> (\<exists>v. total_premium (PDict c) (PDict p) = Inr v \<and> is_num v
          \<and> num_of v = (if is_num (dget c ''last_price'') then num_of (dget c ''last_price'')
                        else 0)
                     + (if is_num (dget p ''last_price'') then num_of (dget p ''last_price'')
                        else 0))
   \<and> total_premium (PDict [(''oi'', PInt 1000)]) (PDict [(''last_price'', PFloat (381 / 4))])
       = Inr (PFloat (381 / 4))
   \<and> total_premium (PDict [(''last_price'', PStr ''n/a'')]) (PDict []) = Inr (PInt 0)"
proof -
  have ovs_ok: "\<forall>i m l ov. overview_aggs (snd (collect C S)) i = Some m \<and> m l = Some ov \<longrightarrow>
       is_num (TP ov) \<and> TP ov \<noteq> PNone"
  proof (intro allI impI)
    fix i m l ov
    assume "overview_aggs (snd (collect C S)) i = Some m \<and> m l = Some ov"
    then have "overview_consistent ov" using emitted_overviews_consistent by blast
    then have "is_num (TP ov)" by (simp add: overview_consistent_def)
    then show "is_num (TP ov) \<and> TP ov \<noteq> PNone" by auto
  qed
  have ex1: "total_premium (PDict [(''oi'', PInt 1000)])
       (PDict [(''last_price'', PFloat (381 / 4))]) = Inr (PFloat (381 / 4))"
    by (simp add: total_premium_def qget_def bind_err_def dget_def py_sum_def)
  have ex2: "total_premium (PDict [(''last_price'', PStr ''n/a'')]) (PDict []) = Inr (PInt 0)"
    by (simp add: total_premium_def qget_def bind_err_def dget_def py_sum_def)
  from ovs_ok total_premium_value[of c p] ex1 ex2 show ?thesis by blast
qed

text \<open>
  Witness: the overview entry of the cycle of \<open>nifty_collector\<close> has the total premium
  120.5 + 95.25 = 215.75.
\<close>

theorem total_premium_is_never_null_witness:
  "overview_aggs (snd (collect nifty_collector seeded)) ''NIFTY''
        = Some [''this_month'' \<mapsto> this_month_overview]
   \<and> [''this_month'' \<mapsto> this_month_overview] ''this_month'' = Some this_month_overview
   \<and> TP this_month_overview = PFloat (863 / 4)
   \<and> is_num (TP this_month_overview) \<and> TP this_month_overview \<noteq> PNone"
proof -
  note t = total_premium_is_never_null[of nifty_collector seeded "[]" "[]"]
  have l: "[''this_month'' \<mapsto> this_month_overview] ''this_month'' = Some this_month_overview"
    by simp
  with t nifty_cycle_overview
  have n: "is_num (TP this_month_overview) \<and> TP this_month_overview \<noteq> PNone"
    by blast
  have v: "TP this_month_overview = PFloat (863 / 4)"
    by (simp add: this_month_overview_def)
  from nifty_cycle_overview l v n show ?thesis by blast
qed

text \<open>
  C8 (the code raises where the claim says it completes). With
  \<open>use_dynamic_expiries = False\<close> line 86 sets \<open>exps = {}\<close>. For BANKNIFTY line 89
  evaluates \<open>len(exps["monthly"])\<close>, which raises \<open>KeyError\<close> as soon as the spot price
  of that index is available: the cycle does not return. The branch of the other two
  indices (lines 92-95) reads the same dict with \<open>exps.get(...)\<close> and skips its buckets;
  no static calendar date is used by either branch, so the cycle has emitted no leg.
\<close>

theorem collect_without_discovery_raises:
  "raised_by (fst (collect static_collector fresh)) = Some (KeyError ''monthly'')
   \<and> legs (snd (collect static_collector fresh)) = []"
  by code_simp

text \<open>
  C9 (the code raises where the claim says the failure is swallowed). Nothing
  catches an exception of lines 179-183. When the snapshot write of the first leg
  raises \<open>OSError\<close>, the cycle ends with that exception: the leg's point is not
  written (no write is even attempted), the second leg of the bucket is not processed,
  and no result is returned. The time-series write that follows (lines 186-190) is
  inside a \<open>try\<close>.
\<close>

theorem collect_snapshot_failure_escalates:
  "raised_by (fst (collect disk_full_collector seeded)) = Some OSError
   \<and> legs (snd (collect disk_full_collector seeded)) = [call_leg]
   \<and> file_writes (snd (collect disk_full_collector seeded)) = 1
   \<and> files (snd (collect disk_full_collector seeded)) = []
   \<and> influx_writes (snd (collect disk_full_collector seeded)) = 0
   \<and> points (snd (collect disk_full_collector seeded)) = []"
  by (simp add: disk_full_collect)

end
